theory Spec2Isabelle
  imports Main "HOL-Library.Word"
begin

unbundle bit_operations_syntax

section \<open>Bytes, SHA-256 and hexadecimal encoding\<close>

text \<open>
  Go strings are byte sequences, and so is \<^typ>\<open>string\<close>: the conversion
  \<^verbatim>\<open>[]byte(s)\<close> is a map over the characters.  \<^verbatim>\<open>sha256.Sum256\<close> and
  \<^verbatim>\<open>hex.EncodeToString\<close> belong to the Go standard library; they are written out
  here (FIPS 180-4, lower-case hexadecimal digits) so that a signature is a
  computable value.
\<close>

type_synonym byte = "8 word"
type_synonym u32 = "32 word"

text \<open>Rotation of a 32-bit word to the right.\<close>

definition rotr :: "nat \<Rightarrow> u32 \<Rightarrow> u32" where
  "rotr n x = drop_bit n x OR push_bit (32 - n) x"

text \<open>
  The round constants of FIPS 180-4, section 4.2.2, eight to a row.
\<close>

definition sha256_K0 :: "u32 list" where
  "sha256_K0 =
     [0x428a2f98, 0x71374491, 0xb5c0fbcf, 0xe9b5dba5,
      0x3956c25b, 0x59f111f1, 0x923f82a4, 0xab1c5ed5]"

definition sha256_K1 :: "u32 list" where
  "sha256_K1 =
     [0xd807aa98, 0x12835b01, 0x243185be, 0x550c7dc3,
      0x72be5d74, 0x80deb1fe, 0x9bdc06a7, 0xc19bf174]"

definition sha256_K2 :: "u32 list" where
  "sha256_K2 =
     [0xe49b69c1, 0xefbe4786, 0x0fc19dc6, 0x240ca1cc,
      0x2de92c6f, 0x4a7484aa, 0x5cb0a9dc, 0x76f988da]"

definition sha256_K3 :: "u32 list" where
  "sha256_K3 =
     [0x983e5152, 0xa831c66d, 0xb00327c8, 0xbf597fc7,
      0xc6e00bf3, 0xd5a79147, 0x06ca6351, 0x14292967]"

definition sha256_K4 :: "u32 list" where
  "sha256_K4 =
     [0x27b70a85, 0x2e1b2138, 0x4d2c6dfc, 0x53380d13,
      0x650a7354, 0x766a0abb, 0x81c2c92e, 0x92722c85]"

definition sha256_K5 :: "u32 list" where
  "sha256_K5 =
     [0xa2bfe8a1, 0xa81a664b, 0xc24b8b70, 0xc76c51a3,
      0xd192e819, 0xd6990624, 0xf40e3585, 0x106aa070]"

definition sha256_K6 :: "u32 list" where
  "sha256_K6 =
     [0x19a4c116, 0x1e376c08, 0x2748774c, 0x34b0bcb5,
      0x391c0cb3, 0x4ed8aa4a, 0x5b9cca4f, 0x682e6ff3]"

definition sha256_K7 :: "u32 list" where
  "sha256_K7 =
     [0x748f82ee, 0x78a5636f, 0x84c87814, 0x8cc70208,
      0x90befffa, 0xa4506ceb, 0xbef9a3f7, 0xc67178f2]"

definition sha256_K :: "u32 list" where
  "sha256_K = concat [sha256_K0, sha256_K1, sha256_K2, sha256_K3, sha256_K4, sha256_K5, sha256_K6, sha256_K7]"

text \<open>The initial hash value (section 5.3.3).\<close>

definition sha256_init :: "u32 list" where
  "sha256_init =
   [0x6a09e667, 0xbb67ae85, 0x3c6ef372, 0xa54ff53a, 0x510e527f, 0x9b05688c, 0x1f83d9ab, 0x5be0cd19]"

text \<open>
  A block is read as 16 big-endian words.  The message schedule is kept as a window of
  16 words: each round uses the first word and appends the next one (section 6.2.2).
\<close>

definition be32 :: "byte list \<Rightarrow> u32" where
  "be32 bs = fold (\<lambda>b acc. push_bit 8 acc OR ucast b) bs 0"

fun be_words :: "nat \<Rightarrow> byte list \<Rightarrow> u32 list" where
  "be_words 0 bs = []"
| "be_words (Suc n) bs = be32 (take 4 bs) # be_words n (drop 4 bs)"

definition next_w :: "u32 list \<Rightarrow> u32" where
  "next_w win =
     (let w0 = win ! 0; w1 = win ! 1; w9 = win ! 9; w14 = win ! 14;
          s0 = rotr 7 w1 XOR rotr 18 w1 XOR drop_bit 3 w1;
          s1 = rotr 17 w14 XOR rotr 19 w14 XOR drop_bit 10 w14
      in s1 + w9 + s0 + w0)"

definition sha256_round :: "u32 \<Rightarrow> u32 list \<times> u32 list \<Rightarrow> u32 list \<times> u32 list" where
  "sha256_round k sw =
     (case sw of (st, win) \<Rightarrow>
       (case st of [a, b, c, d, e, f, g, h] \<Rightarrow>
          (let w = win ! 0;
               S1 = rotr 6 e XOR rotr 11 e XOR rotr 25 e;
               ch = (e AND f) XOR (NOT e AND g);
               t1 = h + S1 + ch + k + w;
               S0 = rotr 2 a XOR rotr 13 a XOR rotr 22 a;
               mj = (a AND b) XOR (a AND c) XOR (b AND c);
               t2 = S0 + mj
           in ([t1 + t2, a, b, c, d + t1, e, f, g], tl win @ [next_w win]))
        | _ \<Rightarrow> (st, win)))"

definition sha256_block :: "u32 list \<Rightarrow> byte list \<Rightarrow> u32 list" where
  "sha256_block h blk = map2 (+) h (fst (fold sha256_round sha256_K (h, be_words 16 blk)))"

text \<open>
  Padding (section 5.1.1): the byte 0x80, zero bytes up to 56 modulo 64, and the length
  of the message in bits as 8 big-endian bytes.
\<close>

definition be_bytes64 :: "64 word \<Rightarrow> byte list" where
  "be_bytes64 v = map (\<lambda>i. ucast (drop_bit (8 * i) v)) (rev [0..<8])"

definition sha256_pad :: "byte list \<Rightarrow> byte list" where
  "sha256_pad m = m @ [0x80] @ replicate ((119 - length m mod 64) mod 64) 0
                    @ be_bytes64 (8 * of_nat (length m))"

fun sha256_blocks :: "nat \<Rightarrow> u32 list \<Rightarrow> byte list \<Rightarrow> u32 list" where
  "sha256_blocks 0 h bs = h"
| "sha256_blocks (Suc n) h bs = sha256_blocks n (sha256_block h (take 64 bs)) (drop 64 bs)"

definition word_bytes :: "u32 \<Rightarrow> byte list" where
  "word_bytes w = [ucast (drop_bit 24 w), ucast (drop_bit 16 w), ucast (drop_bit 8 w), ucast w]"

definition Sum256 :: "byte list \<Rightarrow> byte list" where
  "Sum256 m = (let p = sha256_pad m in
     concat (map word_bytes (sha256_blocks (length p div 64) sha256_init p)))"

text \<open>\<^verbatim>\<open>hex.EncodeToString\<close>: two lower-case digits for each byte.\<close>

definition hexdigit :: "nat \<Rightarrow> char" where
  "hexdigit n = ''0123456789abcdef'' ! n"

definition EncodeToString :: "byte list \<Rightarrow> string" where
  "EncodeToString bs = concat (map (\<lambda>b. [hexdigit (unat b div 16), hexdigit (unat b mod 16)]) bs)"

definition bytes_of :: "string \<Rightarrow> byte list" where
  "bytes_of s = map (\<lambda>c. of_nat (of_char c)) s"

section \<open>Package load: change notifications\<close>

type_synonym NotificationCommand = string

definition RedisPubSubChannel :: string where
  "RedisPubSubChannel = ''iam.cluster.notifications''"

definition NoticePolicyChanged :: NotificationCommand where
  "NoticePolicyChanged = ''PolicyChanged''"

definition NoticeSecretChanged :: NotificationCommand where
  "NoticeSecretChanged = ''SecretChanged''"

text \<open>\<^verbatim>\<open>crypto.Hash\<close> is an unsigned integer; \<^verbatim>\<open>crypto.SHA256\<close> is its value 5.\<close>

definition crypto_SHA256 :: nat where
  "crypto_SHA256 = 5"

record Notification =
  Command :: NotificationCommand
  Payload :: string
  Signature :: string
  SignatureAlgo :: nat

definition Sign :: "Notification \<Rightarrow> Notification" where
  "Sign n = n\<lparr>SignatureAlgo := crypto_SHA256,
              Signature := EncodeToString (Sum256 (bytes_of (Command n @ Payload n)))\<rparr>"

text \<open>
  Function values are modelled by a name; \<open>None\<close> is the \<^verbatim>\<open>nil\<close> function.  What
  the loader does to the outside world is recorded as a trace: a call of
  \<^verbatim>\<open>store.Reload\<close>, a call of a named callback, a call of the \<^verbatim>\<open>handled\<close> hook with
  the command it is given.
\<close>

type_synonym func = "nat option"

datatype effect = StoreReload | Invoke nat | Handled nat NotificationCommand

text \<open>
  The package-level variables.  \<open>reloadQueue\<close> is the unbuffered channel, held as the
  values offered to it that \<^verbatim>\<open>reloadQueueLoop\<close> has not taken yet; \<open>requeue\<close> is the
  slice of pending callbacks; every access to it in the source is made under
  \<^verbatim>\<open>requeueLock\<close>, so each critical section is one step here.
\<close>

record loader =
  reloadQueue :: "func list"
  requeue :: "func list"
  trace :: "effect list"

text \<open>
  The value handed to \<^verbatim>\<open>handleRedisEvent\<close> is an \<^verbatim>\<open>interface{}\<close>: a
  \<^verbatim>\<open>*redis.Message\<close> (channel, pattern, payload) or something else.
\<close>

datatype redis_value = RedisMessage string string string | OtherValue

text \<open>
  \<^verbatim>\<open>json.Unmarshal\<close> is a library function and a parameter here: the partial map from
  message bodies to the notification they decode to (\<open>None\<close>: malformed).  The log
  calls are left out.
\<close>

definition handleRedisEvent ::
  "(string \<rightharpoonup> Notification) \<Rightarrow> redis_value \<Rightarrow> func \<Rightarrow> func \<Rightarrow> loader \<Rightarrow> loader" where
  "handleRedisEvent unmarshal v handled reloaded st =
     (case v of
        OtherValue \<Rightarrow> st
      | RedisMessage channel pattern body \<Rightarrow>
          (case unmarshal body of
             None \<Rightarrow> st
           | Some notif \<Rightarrow>
               if Command notif = NoticePolicyChanged \<or> Command notif = NoticeSecretChanged
               then (let st' = st\<lparr>reloadQueue := reloadQueue st @ [reloaded]\<rparr>
                     in case handled of
                          None \<Rightarrow> st'
                        | Some h \<Rightarrow> st'\<lparr>trace := trace st' @ [Handled h (Command notif)]\<rparr>)
               else st))"

section \<open>Package load: the reload loops\<close>

definition shouldReload :: "loader \<Rightarrow> (func list \<times> bool) \<times> loader" where
  "shouldReload st =
     (if length (requeue st) = 0 then (([], False), st)
      else ((requeue st, True), st\<lparr>requeue := []\<rparr>))"

text \<open>
  \<^verbatim>\<open>DoReload\<close> calls \<^verbatim>\<open>store.Reload\<close> once under the loader's lock; an error it returns
  is only logged.
\<close>

definition DoReload :: "loader \<Rightarrow> loader" where
  "DoReload st = st\<lparr>trace := trace st @ [StoreReload]\<rparr>"

fun call_callbacks :: "func list \<Rightarrow> loader \<Rightarrow> loader" where
  "call_callbacks [] st = st"
| "call_callbacks (None # cb) st = call_callbacks cb st"
| "call_callbacks (Some c # cb) st = call_callbacks cb (st\<lparr>trace := trace st @ [Invoke c]\<rparr>)"

text \<open>
  Calling a \<^verbatim>\<open>nil\<close> function panics in Go.  The optional trailing arguments
  (\<^verbatim>\<open>complete ...func()\<close>, \<^verbatim>\<open>cb ...func()\<close>) are lists; only their first element is
  used, and it is called without a \<^verbatim>\<open>nil\<close> check.
\<close>

datatype panic = NilFuncCall | CloseOfClosedChannel | SendOnClosedChannel
  | DivideByZero | NilDereference | IndexOutOfRange

definition call_first :: "func list \<Rightarrow> loader \<Rightarrow> panic + loader" where
  "call_first fs st =
     (case fs of
        [] \<Rightarrow> Inr st
      | None # _ \<Rightarrow> Inl NilFuncCall
      | Some f # _ \<Rightarrow> Inr (st\<lparr>trace := trace st @ [Invoke f]\<rparr>))"

text \<open>The body of the \<^verbatim>\<open>ticker.C\<close> case of \<^verbatim>\<open>reloadLoop\<close>.\<close>

definition reloadLoop_tick :: "func list \<Rightarrow> loader \<Rightarrow> panic + loader" where
  "reloadLoop_tick complete st =
     (case shouldReload st of
        ((cb, ok), st1) \<Rightarrow>
          if \<not> ok then Inr st1
          else call_first complete (call_callbacks cb (DoReload st1)))"

text \<open>
  The loops themselves, over the sequence of outcomes of their \<^verbatim>\<open>select\<close>: the context
  is done, or the other case fires.  A loop that has consumed all the outcomes given is
  still running.
\<close>

datatype ticker_event = CtxDone | Tick

fun reloadLoop :: "func list \<Rightarrow> ticker_event list \<Rightarrow> loader \<Rightarrow> panic + loader" where
  "reloadLoop complete [] st = Inr st"
| "reloadLoop complete (CtxDone # es) st = Inr st"
| "reloadLoop complete (Tick # es) st =
     (case reloadLoop_tick complete st of
        Inl p \<Rightarrow> Inl p
      | Inr st' \<Rightarrow> reloadLoop complete es st')"

text \<open>
  The body of the \<^verbatim>\<open>reloadQueue\<close> case of \<^verbatim>\<open>reloadQueueLoop\<close>: take the value at the
  head of the channel and append it to \<open>requeue\<close>.  With nothing offered the case does
  not fire.
\<close>

definition reloadQueueLoop_recv :: "func list \<Rightarrow> loader \<Rightarrow> panic + loader" where
  "reloadQueueLoop_recv cb st =
     (case reloadQueue st of
        [] \<Rightarrow> Inr st
      | fn # rest \<Rightarrow> call_first cb (st\<lparr>reloadQueue := rest, requeue := requeue st @ [fn]\<rparr>))"

fun reloadQueueLoop_recvs :: "nat \<Rightarrow> loader \<Rightarrow> loader" where
  "reloadQueueLoop_recvs 0 st = st"
| "reloadQueueLoop_recvs (Suc n) st =
     (case reloadQueueLoop_recv [] st of
        Inl p \<Rightarrow> st
      | Inr st' \<Rightarrow> reloadQueueLoop_recvs n st')"

section \<open>Package server: the signal handler\<close>

datatype os_Signal = SIGINT | SIGTERM | SIGHUP | SIGQUIT

text \<open>
  Modelled from the spec: the declaration of \<^verbatim>\<open>shutdownSignals\<close> is not among the
  sources; the doc comment of \<^verbatim>\<open>SetupSignalHandler\<close> says it registers for SIGTERM and
  SIGINT, the spec calls them the termination signals.
\<close>

definition shutdownSignals :: "os_Signal list" where
  "shutdownSignals = [SIGINT, SIGTERM]"

text \<open>
  The goroutine started by \<^verbatim>\<open>SetupSignalHandler\<close> receives twice from
  \<^verbatim>\<open>shutdownHandler\<close>: its position is before the first receive, before the second,
  or past \<^verbatim>\<open>os.Exit\<close>.
\<close>

datatype handler_pc = AwaitFirst | AwaitSecond | Finished

text \<open>
  The process as far as the handler goes: whether \<^verbatim>\<open>onlyOneSignalHandler\<close> is closed,
  the buffered channel \<^verbatim>\<open>shutdownHandler\<close> (\<open>None\<close>: still \<^verbatim>\<open>nil\<close>; capacity 2), how
  often \<^verbatim>\<open>close(stop)\<close> has run (the channel \<^verbatim>\<open>stop\<close> is closed when this is not 0),
  the goroutine, the exit status once \<^verbatim>\<open>os.Exit\<close> has run, and the units of other work
  (shutdown callbacks among them) the process has performed.
\<close>

record process =
  onlyOneSignalHandler_closed :: bool
  shutdownHandler :: "os_Signal list option"
  stop_closes :: nat
  handler :: "handler_pc option"
  exited :: "int option"
  work_done :: "nat list"

definition SetupSignalHandler :: "process \<Rightarrow> panic + process" where
  "SetupSignalHandler p =
     (if onlyOneSignalHandler_closed p then Inl CloseOfClosedChannel
      else Inr (p\<lparr>onlyOneSignalHandler_closed := True,
                  shutdownHandler := Some [],
                  stop_closes := 0,
                  handler := Some AwaitFirst\<rparr>))"

text \<open>
  A send that does not block: \<^verbatim>\<open>signal.Notify\<close> relays this way (a signal that finds
  the buffer full is dropped), and so does the \<^verbatim>\<open>select\<close> with \<^verbatim>\<open>default\<close> of
  \<^verbatim>\<open>RequestShutdown\<close>.
\<close>

definition offer :: "os_Signal \<Rightarrow> os_Signal list \<Rightarrow> bool \<times> os_Signal list" where
  "offer s buf = (if length buf < 2 then (True, buf @ [s]) else (False, buf))"

definition RequestShutdown :: "process \<Rightarrow> panic + bool \<times> process" where
  "RequestShutdown p =
     (case shutdownHandler p of
        None \<Rightarrow> Inr (False, p)
      | Some buf \<Rightarrow>
          (case shutdownSignals of
             [] \<Rightarrow> Inl IndexOutOfRange
           | s # _ \<Rightarrow>
               (case offer s buf of
                  (sent, buf') \<Rightarrow> Inr (sent, p\<lparr>shutdownHandler := Some buf'\<rparr>))))"

text \<open>
  What can happen to the process: a signal arrives, the handler goroutine is scheduled,
  some goroutine calls \<^verbatim>\<open>RequestShutdown\<close>, or some other goroutine performs a unit of
  work.  What the runtime does with a signal that is not relayed is outside this model.
  After \<^verbatim>\<open>os.Exit\<close> nothing happens any more.
\<close>

datatype proc_event = Signal os_Signal | HandlerStep | CallRequestShutdown | Work nat

definition handler_step :: "process \<Rightarrow> process" where
  "handler_step p =
     (case (handler p, shutdownHandler p) of
        (Some AwaitFirst, Some (s # buf)) \<Rightarrow>
          p\<lparr>shutdownHandler := Some buf, stop_closes := stop_closes p + 1,
            handler := Some AwaitSecond\<rparr>
      | (Some AwaitSecond, Some (s # buf)) \<Rightarrow>
          p\<lparr>shutdownHandler := Some buf, exited := Some 1, handler := Some Finished\<rparr>
      | _ \<Rightarrow> p)"

definition proc_step :: "proc_event \<Rightarrow> process \<Rightarrow> process" where
  "proc_step e p =
     (if exited p \<noteq> None then p
      else case e of
        Signal s \<Rightarrow>
          (case shutdownHandler p of
             Some buf \<Rightarrow>
               if s \<in> set shutdownSignals
               then p\<lparr>shutdownHandler := Some (snd (offer s buf))\<rparr> else p
           | None \<Rightarrow> p)
      | HandlerStep \<Rightarrow> handler_step p
      | CallRequestShutdown \<Rightarrow>
          (case RequestShutdown p of Inr (sent, p') \<Rightarrow> p' | Inl e \<Rightarrow> p)
      | Work k \<Rightarrow> p\<lparr>work_done := work_done p @ [k]\<rparr>)"

definition proc_run :: "proc_event list \<Rightarrow> process \<Rightarrow> process" where
  "proc_run es p = fold proc_step es p"

section \<open>Package auth: the cache strategy\<close>

record Secret =
  Username :: string
  ID :: string
  Key :: string
  Expires :: int

text \<open>
  \<^verbatim>\<open>time.Now\<close>, \<^verbatim>\<open>time.Unix\<close> and \<^verbatim>\<open>Time.After\<close> are library functions.  A Go
  \<^verbatim>\<open>Time\<close> without a monotonic reading is a number of seconds since the year 1, held
  in an \<^verbatim>\<open>int64\<close>, and a number of nanoseconds below \<open>10^9\<close>.  \<^verbatim>\<open>time.Unix(s, 0)\<close>
  adds the seconds between the year 1 and 1970 to \<open>s\<close> in \<^verbatim>\<open>int64\<close>, so the sum wraps
  around for an \<open>s\<close> near the largest \<^verbatim>\<open>int64\<close>.  \<^verbatim>\<open>After\<close> compares the seconds and
  then the nanoseconds (the argument of \<^verbatim>\<open>After\<close> in \<^verbatim>\<open>KeyExpired\<close> has no monotonic
  reading).  The reading of the clock is given as its number of nanoseconds since the
  Unix epoch; the seconds of a clock reading are not computed by an addition that can
  wrap.
\<close>

definition unixToInternal :: int where
  "unixToInternal = 62135596800"

definition wrap_int64 :: "int \<Rightarrow> int" where
  "wrap_int64 x = (x + 2 ^ 63) mod 2 ^ 64 - 2 ^ 63"

record Time =
  seconds :: int
  nanoseconds :: int

definition time_Unix :: "int \<Rightarrow> Time" where
  "time_Unix s = \<lparr>seconds = wrap_int64 (s + unixToInternal), nanoseconds = 0\<rparr>"

definition time_Now :: "int \<Rightarrow> Time" where
  "time_Now now =
     \<lparr>seconds = now div 1000000000 + unixToInternal, nanoseconds = now mod 1000000000\<rparr>"

definition After :: "Time \<Rightarrow> Time \<Rightarrow> bool" where
  "After t u \<longleftrightarrow>
     seconds t > seconds u \<or> (seconds t = seconds u \<and> nanoseconds t > nanoseconds u)"

definition KeyExpired :: "int \<Rightarrow> int \<Rightarrow> bool" where
  "KeyExpired now expires =
     (if expires \<ge> 1 then After (time_Now now) (time_Unix expires) else False)"

text \<open>The two errors the package declares, and the third one its key function returns.\<close>

datatype keyfunc_error = UnexpectedSigningMethod | ErrMissingKID | ErrMissingSecret

text \<open>
  The token library (\<^verbatim>\<open>jwt-go\<close>) and \<^verbatim>\<open>fmt.Sscanf\<close> are parameters.  A decoded token
  shows whether its method is an HMAC method and the \<^verbatim>\<open>kid\<close> entry of its header
  (\<open>None\<close>: absent, or not a string).  The library decodes the raw string, asks the key
  function for the key, checks the signature with it, and validates the claims; the
  token it returns is valid exactly when it returns no error.  The error it returns
  tells what failed; the text of that error (\<^verbatim>\<open>err.Error()\<close>) is the library's own.
\<close>

record jwt_Token =
  Method_HMAC :: bool
  Header_kid :: "string option"

datatype jwt_error = Malformed | Unverifiable keyfunc_error | InvalidSignature | InvalidClaims

record jwt_lib =
  Sscanf_Bearer :: "string \<Rightarrow> string"
  ParseUnverified :: "string \<rightharpoonup> jwt_Token"
  Verify :: "jwt_Token \<Rightarrow> string \<Rightarrow> bool"
  ClaimsValid :: "jwt_Token \<Rightarrow> bool"
  Error_string :: "jwt_error \<Rightarrow> string"

type_synonym getter = "string \<Rightarrow> Secret \<times> bool"

text \<open>
  The key function of \<^verbatim>\<open>AuthFunc\<close>.  It assigns the captured variable \<^verbatim>\<open>secret\<close>, so
  it takes and returns it.  The getter returns a secret and whether it failed.
\<close>

definition keyFunc :: "getter \<Rightarrow> jwt_Token \<Rightarrow> Secret \<Rightarrow> Secret \<times> (keyfunc_error + string)" where
  "keyFunc get token secret =
     (if \<not> Method_HMAC token then (secret, Inl UnexpectedSigningMethod)
      else case Header_kid token of
        None \<Rightarrow> (secret, Inl ErrMissingKID)
      | Some kid \<Rightarrow>
          (case get kid of
             (s, failed) \<Rightarrow> if failed then (s, Inl ErrMissingSecret) else (s, Inr (Key s))))"

definition ParseWithClaims ::
  "jwt_lib \<Rightarrow> string \<Rightarrow> (jwt_Token \<Rightarrow> Secret \<Rightarrow> Secret \<times> (keyfunc_error + string))
     \<Rightarrow> Secret \<Rightarrow> Secret \<times> bool \<times> jwt_error option" where
  "ParseWithClaims lib raw kf secret =
     (case ParseUnverified lib raw of
        None \<Rightarrow> (secret, False, Some Malformed)
      | Some token \<Rightarrow>
          (case kf token secret of
             (s, Inl e) \<Rightarrow> (s, False, Some (Unverifiable e))
           | (s, Inr key) \<Rightarrow>
               if \<not> Verify lib token key then (s, False, Some InvalidSignature)
               else if \<not> ClaimsValid lib token then (s, False, Some InvalidClaims)
               else (s, True, None)))"

text \<open>
  The error codes \<^verbatim>\<open>AuthFunc\<close> uses (package \<^verbatim>\<open>code\<close>), what the message of a response
  is built from (nothing, the text of the library's error, or the expiry of the secret,
  which the source prints as a date), and how the handler ends: it writes an error response and aborts the
  request, or binds the user name under \<^verbatim>\<open>middleware.UsernameKey\<close> and passes the
  request on, or panics.
\<close>

datatype code = ErrMissingHeader | ErrSignatureInvalid | ErrExpired

datatype message = HeaderEmpty | ErrorText string | ExpiredAt int

datatype auth_result = Abort code message | Next string | Panics panic

definition zero_Secret :: Secret where
  "zero_Secret = \<lparr>Username = [], ID = [], Key = [], Expires = 0\<rparr>"

definition AuthFunc :: "jwt_lib \<Rightarrow> getter \<Rightarrow> int \<Rightarrow> string \<Rightarrow> auth_result" where
  "AuthFunc lib get now header =
     (if length header = 0 then Abort ErrMissingHeader HeaderEmpty
      else
        (let rawJWT = Sscanf_Bearer lib header
         in case ParseWithClaims lib rawJWT (keyFunc get) zero_Secret of
              (secret, valid, err) \<Rightarrow>
                if err \<noteq> None \<or> \<not> valid
                then (case err of
                        Some e \<Rightarrow> Abort ErrSignatureInvalid (ErrorText (Error_string lib e))
                      | None \<Rightarrow> Panics NilDereference)
                else if KeyExpired now (Expires secret)
                then Abort ErrExpired (ExpiredAt (Expires secret))
                else Next (Username secret)))"

section \<open>Package authorization: the authorizer\<close>

text \<open>
  \<^verbatim>\<open>ladon.Request\<close> and the response of the authorization API, with the fields the
  authorizer touches.
\<close>

record Request =
  Resource :: string
  Action :: string
  Subject :: string
  Context :: "string \<rightharpoonup> string"

record Response =
  Allowed :: bool
  Denied :: bool
  Reason :: string

text \<open>
  The warden is an interface value: \<^verbatim>\<open>IsAllowed\<close> returns \<^verbatim>\<open>nil\<close> or an error, of
  which the authorizer uses the text.
\<close>

definition Authorize :: "(Request \<Rightarrow> string option) \<Rightarrow> Request \<Rightarrow> Response" where
  "Authorize warden request =
     (case warden request of
        Some err \<Rightarrow> \<lparr>Allowed = False, Denied = True, Reason = err\<rparr>
      | None \<Rightarrow> \<lparr>Allowed = True, Denied = False, Reason = []\<rparr>)"

text \<open>
  Modelled from the spec: the policy type of the warden behind \<^verbatim>\<open>Authorize\<close> is not
  among the sources.  The spec (3, 4.1) gives a policy subjects, resources, actions, an
  effect (allow or deny) and conditions.  The pattern matcher (does one of these
  patterns match this name), the evaluation of a condition in a context, and the text
  of the reason of a denial (by a policy, or for want of an allowing one) are parameters.
\<close>

datatype policy_effect = AllowAccess | DenyAccess

record Policy =
  Subjects :: "string list"
  Resources :: "string list"
  Actions :: "string list"
  Effect :: policy_effect
  Conditions :: "string list"

record matcher =
  Matches :: "string list \<Rightarrow> string \<Rightarrow> bool"
  Fulfills :: "string \<Rightarrow> (string \<rightharpoonup> string) \<Rightarrow> bool"
  ReasonText :: "Policy option \<Rightarrow> string"

text \<open>
  Modelled from the spec: the matching of one policy is not among the sources.  Spec
  4.1: matching a single policy requires a resource pattern match, an action pattern
  match, a subject pattern match, and all declared conditions evaluating true against
  the context of the request.
\<close>

definition policy_matches :: "matcher \<Rightarrow> Policy \<Rightarrow> Request \<Rightarrow> bool" where
  "policy_matches m p r \<longleftrightarrow>
     Matches m (Resources p) (Resource r) \<and>
     Matches m (Actions p) (Action r) \<and>
     Matches m (Subjects p) (Subject r) \<and>
     list_all (\<lambda>c. Fulfills m c (Context r)) (Conditions p)"

text \<open>
  Modelled from the spec: the evaluation of the policies is not among the sources.
  Spec 4.1 and 9: the rules are scanned in order; a matching policy with effect deny
  denies the request, and the decision carries the first blocking reason encountered;
  a request that no matching policy allows is denied; only when at least one matching
  policy allows and none denies is the request allowed.  The flag tells whether a
  matching policy has allowed so far.
\<close>

fun DoPoliciesAllow :: "matcher \<Rightarrow> Request \<Rightarrow> Policy list \<Rightarrow> bool \<Rightarrow> string option" where
  "DoPoliciesAllow m r [] allowed = (if allowed then None else Some (ReasonText m None))"
| "DoPoliciesAllow m r (p # ps) allowed =
     (if \<not> policy_matches m p r then DoPoliciesAllow m r ps allowed
      else if Effect p = DenyAccess then Some (ReasonText m (Some p))
      else DoPoliciesAllow m r ps True)"

text \<open>
  Modelled from the spec: the warden's \<^verbatim>\<open>IsAllowed\<close> is not among the sources.  Spec
  4.1: it fetches the policies applicable to the request from the cache (the lookup is
  a parameter) and evaluates them.
\<close>

definition IsAllowed :: "matcher \<Rightarrow> (Request \<Rightarrow> Policy list) \<Rightarrow> Request \<Rightarrow> string option" where
  "IsAllowed m candidates r = DoPoliciesAllow m r (candidates r) False"

section \<open>Package analytics\<close>

definition analyticsKeyName :: string where
  "analyticsKeyName = ''iam-system-analytics''"

text \<open>One second, in nanoseconds.\<close>

definition recordsBufferForcedFlushInterval :: int where
  "recordsBufferForcedFlushInterval = 1000000000"

record AnalyticsRecord =
  TimeStamp :: int
  Username_rec :: string
  Effect_rec :: string
  Conclusion :: string
  Request_rec :: string
  Policies :: string
  Deciders :: string
  ExpireAt :: int

text \<open>
  A Go channel: its capacity, the values sent and not yet received, and whether it is
  closed.  A send on a closed channel panics; otherwise it proceeds if the buffer has
  room or a receiver is waiting at the channel, and blocks if not.  Whether a receiver
  is waiting depends on the other goroutines and is an argument.
\<close>

record 'a chan =
  cap :: nat
  buf :: "'a list"
  closed :: bool

datatype 'a send_result = Sent "'a chan" | SendBlocks | SendPanics

definition chan_send :: "bool \<Rightarrow> 'a chan \<Rightarrow> 'a \<Rightarrow> 'a send_result" where
  "chan_send receiver_waiting c v =
     (if closed c then SendPanics
      else if length (buf c) < cap c \<or> receiver_waiting then Sent (c\<lparr>buf := buf c @ [v]\<rparr>)
      else SendBlocks)"

text \<open>
  The options type is declared in a file that is not among the sources; these are the
  fields \<^verbatim>\<open>NewAnalytics\<close> reads.  \<^verbatim>\<open>PoolSize\<close> is a Go \<^verbatim>\<open>int\<close> (of 64 bits: its
  values lie between \<open>- 2^63\<close> and \<open>2^63 - 1\<close>), the two others are \<^verbatim>\<open>uint64\<close>.
\<close>

record AnalyticsOptions =
  PoolSize :: int
  RecordsBufferSize :: "64 word"
  FlushInterval :: "64 word"

datatype goroutine = GoRecordWorker | GoStop

text \<open>
  The store is the sink: the calls of \<^verbatim>\<open>AppendToSetPipelined\<close> it has received, each
  with its key and its batch.  Beside the fields of the struct, \<open>spawned\<close> lists the
  goroutines the instance has started with a \<^verbatim>\<open>go\<close> statement.
\<close>

type_synonym sink = "(string \<times> byte list list) list"

record Analytics =
  store :: sink
  poolSize :: int
  recordsChan :: "AnalyticsRecord chan"
  workerBufferSize :: "64 word"
  recordsBufferFlushInterval :: "64 word"
  shouldStop :: "32 word"
  poolWg :: int
  spawned :: "goroutine list"

text \<open>
  \<^verbatim>\<open>uint64(ps)\<close> keeps the bits of \<^verbatim>\<open>ps\<close>; dividing by zero panics.  (What
  \<^verbatim>\<open>make\<close> does with a capacity beyond the allocation limit of the platform is not
  modelled.)
\<close>

definition NewAnalytics :: "AnalyticsOptions \<Rightarrow> sink \<Rightarrow> panic + Analytics" where
  "NewAnalytics options st =
     (let ps = PoolSize options;
          recordsBufferSize = RecordsBufferSize options
      in if (word_of_int ps :: 64 word) = 0 then Inl DivideByZero
         else Inr \<lparr>store = st,
                   poolSize = ps,
                   recordsChan = \<lparr>cap = unat recordsBufferSize, buf = [], closed = False\<rparr>,
                   workerBufferSize = recordsBufferSize div word_of_int ps,
                   recordsBufferFlushInterval = FlushInterval options,
                   shouldStop = 0,
                   poolWg = 0,
                   spawned = []\<rparr>)"

text \<open>
  \<^verbatim>\<open>Start\<close> returns as soon as it has started its goroutines: the workers and, last, one
  that calls \<^verbatim>\<open>Stop\<close>.  None of them has run a step when \<^verbatim>\<open>Start\<close> returns.  (The
  assignment of the package variable \<^verbatim>\<open>analytics\<close> and the call of \<^verbatim>\<open>store.Connect\<close>
  are left out.)
\<close>

definition Start :: "Analytics \<Rightarrow> Analytics" where
  "Start r =
     r\<lparr>shouldStop := 0,
       poolWg := poolWg r + int (nat (poolSize r)),
       spawned := spawned r @ replicate (nat (poolSize r)) GoRecordWorker @ [GoStop]\<rparr>"

text \<open>
  \<^verbatim>\<open>Stop\<close>: the flag, the close (which panics on a closed channel), and then the wait
  for the workers, which returns once the counter is zero.  A call that blocks shows the
  state it blocks in.
\<close>

definition Stop_signal :: "Analytics \<Rightarrow> panic + Analytics" where
  "Stop_signal r =
     (let r1 = r\<lparr>shouldStop := 1\<rparr>
      in if closed (recordsChan r1) then Inl CloseOfClosedChannel
         else Inr (r1\<lparr>recordsChan := (recordsChan r1)\<lparr>closed := True\<rparr>\<rparr>))"

datatype 'a call = Returned 'a Analytics | Blocked Analytics | Panicked panic

definition Stop :: "Analytics \<Rightarrow> unit call" where
  "Stop r =
     (case Stop_signal r of
        Inl p \<Rightarrow> Panicked p
      | Inr r2 \<Rightarrow> if poolWg r2 = 0 then Returned () r2 else Blocked r2)"

text \<open>\<^verbatim>\<open>RecordHit\<close> returns an \<^verbatim>\<open>error\<close>: \<open>None\<close> is \<^verbatim>\<open>nil\<close>.\<close>

definition RecordHit :: "bool \<Rightarrow> AnalyticsRecord \<Rightarrow> Analytics \<Rightarrow> string option call" where
  "RecordHit receiver_waiting record r =
     (if unat (shouldStop r) > 0 then Returned None r
      else case chan_send receiver_waiting (recordsChan r) record of
             Sent c \<Rightarrow> Returned None (r\<lparr>recordsChan := c\<rparr>)
           | SendBlocks \<Rightarrow> Blocked r
           | SendPanics \<Rightarrow> Panicked SendOnClosedChannel)"

text \<open>
  One iteration of the loop of \<^verbatim>\<open>recordWorker\<close>, given the outcome of its \<^verbatim>\<open>select\<close>
  (a record, the channel found closed, or the idle timeout) and a reading of the clock.
  \<^verbatim>\<open>msgpack.Marshal\<close> is a parameter (\<open>None\<close>: it returned an error, which is logged).
  The worker's variables are its buffer and \<^verbatim>\<open>lastSentTS\<close>; the result is \<open>None\<close> when
  the worker returns.
\<close>

datatype 'a select = Received 'a | ChanClosed | TimedOut

record worker =
  recordsBuffer :: "byte list list"
  lastSentTS :: int

definition recordWorker_step ::
  "Analytics \<Rightarrow> (AnalyticsRecord \<rightharpoonup> byte list) \<Rightarrow> AnalyticsRecord select \<times> int
     \<Rightarrow> worker \<times> sink \<Rightarrow> worker option \<times> sink" where
  "recordWorker_step r marshal ev ws =
     (case (ev, ws) of
        ((ChanClosed, now), (w, st)) \<Rightarrow> (None, st @ [(analyticsKeyName, recordsBuffer w)])
      | ((sel, now), (w, st)) \<Rightarrow>
          (let (b, readyToSend) =
                 (case sel of
                    Received record \<Rightarrow>
                      (let b = (case marshal record of
                                  None \<Rightarrow> recordsBuffer w
                                | Some encoded \<Rightarrow> recordsBuffer w @ [encoded])
                       in (b, length b = unat (workerBufferSize r)))
                  | _ \<Rightarrow> (recordsBuffer w, True))
           in if length b > 0 \<and>
                 (readyToSend \<or> now - lastSentTS w \<ge> recordsBufferForcedFlushInterval)
              then (Some \<lparr>recordsBuffer = [], lastSentTS = now\<rparr>, st @ [(analyticsKeyName, b)])
              else (Some (w\<lparr>recordsBuffer := b\<rparr>), st)))"

fun recordWorker ::
  "Analytics \<Rightarrow> (AnalyticsRecord \<rightharpoonup> byte list) \<Rightarrow> (AnalyticsRecord select \<times> int) list
     \<Rightarrow> worker \<times> sink \<Rightarrow> worker option \<times> sink" where
  "recordWorker r marshal [] (w, st) = (Some w, st)"
| "recordWorker r marshal (ev # evs) (w, st) =
     (case recordWorker_step r marshal ev (w, st) of
        (None, st') \<Rightarrow> (None, st')
      | (Some w', st') \<Rightarrow> recordWorker r marshal evs (w', st'))"

section \<open>The analytics pipeline as a whole\<close>

text \<open>
  The goroutines of the pipeline run interleaved.  The steps that change the instance:
  the goroutine that \<^verbatim>\<open>Start\<close> made for \<^verbatim>\<open>Stop\<close> runs the flag store and the close of
  \<^verbatim>\<open>Stop\<close> (a panic of the close leaves the flag set), a worker takes the next record
  from the channel, a worker hands a batch to the store, a worker returns, and some
  caller runs \<^verbatim>\<open>RecordHit\<close> (a call that blocks or panics changes nothing here).
  There is no step for a call of \<^verbatim>\<open>Stop\<close> from outside.
\<close>

datatype pipeline_event = StopRuns | WorkerTakes | WorkerAppends "byte list list" | WorkerExits
  | Hit bool AnalyticsRecord

definition pipeline_step :: "pipeline_event \<Rightarrow> Analytics \<Rightarrow> Analytics" where
  "pipeline_step e r =
     (case e of
        StopRuns \<Rightarrow>
          if GoStop \<in> set (spawned r)
          then (case Stop_signal r of
                  Inr r' \<Rightarrow> r'\<lparr>spawned := remove1 GoStop (spawned r')\<rparr>
                | Inl p \<Rightarrow> r\<lparr>shouldStop := 1, spawned := remove1 GoStop (spawned r)\<rparr>)
          else r
      | WorkerTakes \<Rightarrow> r\<lparr>recordsChan := (recordsChan r)\<lparr>buf := tl (buf (recordsChan r))\<rparr>\<rparr>
      | WorkerAppends batch \<Rightarrow> r\<lparr>store := store r @ [(analyticsKeyName, batch)]\<rparr>
      | WorkerExits \<Rightarrow> r\<lparr>poolWg := poolWg r - 1, spawned := remove1 GoRecordWorker (spawned r)\<rparr>
      | Hit w record \<Rightarrow>
          (case RecordHit w record r of Returned err r' \<Rightarrow> r' | _ \<Rightarrow> r))"

definition pipeline_run :: "pipeline_event list \<Rightarrow> Analytics \<Rightarrow> Analytics" where
  "pipeline_run es r = fold pipeline_step es r"

section \<open>Notions used in the statements\<close>

text \<open>The callbacks of a list that are not \<^verbatim>\<open>nil\<close>, and the number of reloads in a trace.\<close>

definition non_nil :: "func list \<Rightarrow> nat list" where
  "non_nil fs = concat (map (\<lambda>f. case f of None \<Rightarrow> [] | Some c \<Rightarrow> [c]) fs)"

definition reloads :: "loader \<Rightarrow> nat" where
  "reloads st = length (filter (\<lambda>e. e = StoreReload) (trace st))"

text \<open>
  A request's token passes every check of the library and of the key function: the
  header is not empty, the raw token decodes, its method is an HMAC method, its header
  names a key id, the getter returns a secret for it without failing, the signature
  verifies with the key of that secret, and the claims are valid.
\<close>

definition accepted :: "jwt_lib \<Rightarrow> getter \<Rightarrow> string \<Rightarrow> jwt_Token \<Rightarrow> string \<Rightarrow> bool" where
  "accepted lib get header token kid \<longleftrightarrow>
     header \<noteq> [] \<and>
     ParseUnverified lib (Sscanf_Bearer lib header) = Some token \<and>
     Method_HMAC token \<and>
     Header_kid token = Some kid \<and>
     \<not> snd (get kid) \<and>
     Verify lib token (Key (fst (get kid))) \<and>
     ClaimsValid lib token"

text \<open>
  One notification on its way to the pending list: the pub/sub loop hands the message
  to \<^verbatim>\<open>handleRedisEvent\<close> with both callbacks \<^verbatim>\<open>nil\<close>, and the queue loop takes what
  was offered.
\<close>

definition deliver :: "(string \<rightharpoonup> Notification) \<Rightarrow> redis_value \<Rightarrow> loader \<Rightarrow> loader" where
  "deliver unmarshal v st =
     (case reloadQueueLoop_recv [] (handleRedisEvent unmarshal v None None st) of
        Inr st' \<Rightarrow> st'
      | Inl p \<Rightarrow> st)"

definition recognised :: "(string \<rightharpoonup> Notification) \<Rightarrow> redis_value \<Rightarrow> bool" where
  "recognised unmarshal v \<longleftrightarrow>
     (case v of
        OtherValue \<Rightarrow> False
      | RedisMessage ch pat body \<Rightarrow>
          (case unmarshal body of
             None \<Rightarrow> False
           | Some n \<Rightarrow> Command n = NoticePolicyChanged \<or> Command n = NoticeSecretChanged))"

text \<open>
  What holds of the process once the handler is installed: the channel exists, and the
  position of the goroutine tells how often \<^verbatim>\<open>stop\<close> was closed and whether the process
  has exited.
\<close>

definition handler_inv :: "process \<Rightarrow> bool" where
  "handler_inv p \<longleftrightarrow>
     shutdownHandler p \<noteq> None \<and>
     (case handler p of
        None \<Rightarrow> False
      | Some AwaitFirst \<Rightarrow> stop_closes p = 0 \<and> exited p = None
      | Some AwaitSecond \<Rightarrow> stop_closes p = 1 \<and> exited p = None
      | Some Finished \<Rightarrow> stop_closes p = 1 \<and> exited p = Some 1)"

text \<open>
  The pipeline is draining when the flag is set and the channel closed; the stop is
  pending while the goroutine for it has not run and the channel is open.
\<close>

definition draining :: "Analytics \<Rightarrow> bool" where
  "draining r \<longleftrightarrow> shouldStop r = 1 \<and> closed (recordsChan r)"

definition stop_pending :: "Analytics \<Rightarrow> bool" where
  "stop_pending r \<longleftrightarrow> GoStop \<in> set (spawned r) \<and> \<not> closed (recordsChan r)"

text \<open>
  The encodings of the records that encode, in order; a run of records arriving at a
  worker, each with the reading of the clock at its arrival; the number of worker
  goroutines an instance has started.
\<close>

definition encoded :: "(AnalyticsRecord \<rightharpoonup> byte list) \<Rightarrow> AnalyticsRecord list \<Rightarrow> byte list list" where
  "encoded marshal recs = concat (map (\<lambda>r. case marshal r of None \<Rightarrow> [] | Some e \<Rightarrow> [e]) recs)"

definition arrivals :: "(AnalyticsRecord \<times> int) list \<Rightarrow> (AnalyticsRecord select \<times> int) list" where
  "arrivals evs = map (\<lambda>(r, t). (Received r, t)) evs"

definition workers_of :: "Analytics \<Rightarrow> nat" where
  "workers_of r = length (filter (\<lambda>g. g = GoRecordWorker) (spawned r))"

section \<open>Example values\<close>

definition idle_loader :: loader where
  "idle_loader = \<lparr>reloadQueue = [], requeue = [], trace = []\<rparr>"

definition forged_notification :: Notification where
  "forged_notification =
     \<lparr>Command = ''PolicyChanged'', Payload = ''p2'', Signature = ''forged'', SignatureAlgo = 5\<rparr>"

definition pending_loader :: loader where
  "pending_loader = \<lparr>reloadQueue = [None, Some 3, None], requeue = [], trace = []\<rparr>"

definition fresh_process :: process where
  "fresh_process = \<lparr>onlyOneSignalHandler_closed = False, shutdownHandler = None,
     stop_closes = 0, handler = None, exited = None, work_done = []\<rparr>"

definition armed_process :: process where
  "armed_process = \<lparr>onlyOneSignalHandler_closed = True, shutdownHandler = Some [],
     stop_closes = 0, handler = Some AwaitFirst, exited = None, work_done = []\<rparr>"

definition demo_lib :: jwt_lib where
  "demo_lib = \<lparr>Sscanf_Bearer = drop 7,
               ParseUnverified = [''tok'' \<mapsto> \<lparr>Method_HMAC = True, Header_kid = Some ''k1''\<rparr>,
                                  ''old'' \<mapsto> \<lparr>Method_HMAC = True, Header_kid = Some ''k2''\<rparr>],
               Verify = (\<lambda>t k. k = ''s3cret''),
               ClaimsValid = (\<lambda>t. True),
               Error_string = (\<lambda>e. ''token rejected'')\<rparr>"

definition demo_get :: getter where
  "demo_get kid =
     (if kid = ''k1''
      then (\<lparr>Username = ''colin'', ID = ''k1'', Key = ''s3cret'', Expires = 0\<rparr>, False)
      else if kid = ''k2''
      then (\<lparr>Username = ''james'', ID = ''k2'', Key = ''s3cret'', Expires = 1600000000\<rparr>, False)
      else (zero_Secret, True))"

definition demo_now :: int where
  "demo_now = 1700000000500000000"

definition exact_matcher :: matcher where
  "exact_matcher = \<lparr>Matches = (\<lambda>patterns s. s \<in> set patterns),
                    Fulfills = (\<lambda>c ctx. ctx c \<noteq> None),
                    ReasonText = (\<lambda>p. case p of None \<Rightarrow> ''denied by default''
                                         | Some q \<Rightarrow> ''forcefully denied'')\<rparr>"

definition allow_read :: Policy where
  "allow_read = \<lparr>Subjects = [''colin''], Resources = [''doc''], Actions = [''read''],
                 Effect = AllowAccess, Conditions = []\<rparr>"

definition deny_read :: Policy where
  "deny_read = \<lparr>Subjects = [''colin''], Resources = [''doc''], Actions = [''read''],
                Effect = DenyAccess, Conditions = [''username'']\<rparr>"

definition read_request :: Request where
  "read_request = \<lparr>Resource = ''doc'', Action = ''read'', Subject = ''colin'',
                   Context = [''username'' \<mapsto> ''colin'']\<rparr>"

definition demo_options :: AnalyticsOptions where
  "demo_options = \<lparr>PoolSize = 1, RecordsBufferSize = 1, FlushInterval = 200\<rparr>"

definition demo_record :: AnalyticsRecord where
  "demo_record = \<lparr>TimeStamp = 1, Username_rec = ''colin'', Effect_rec = ''allow'',
     Conclusion = [], Request_rec = [], Policies = [], Deciders = [], ExpireAt = 0\<rparr>"

definition demo_analytics :: Analytics where
  "demo_analytics = \<lparr>store = [], poolSize = 1,
     recordsChan = \<lparr>cap = 1, buf = [], closed = False\<rparr>,
     workerBufferSize = 1, recordsBufferFlushInterval = 200, shouldStop = 0, poolWg = 0,
     spawned = []\<rparr>"

definition full_analytics :: Analytics where
  "full_analytics =
     (Start demo_analytics)\<lparr>recordsChan := \<lparr>cap = 1, buf = [demo_record], closed = False\<rparr>\<rparr>"

definition pair_options :: AnalyticsOptions where
  "pair_options = \<lparr>PoolSize = 2, RecordsBufferSize = 4, FlushInterval = 200\<rparr>"

definition pair_analytics :: Analytics where
  "pair_analytics = \<lparr>store = [], poolSize = 2,
     recordsChan = \<lparr>cap = 4, buf = [], closed = False\<rparr>,
     workerBufferSize = 2, recordsBufferFlushInterval = 200, shouldStop = 0, poolWg = 0,
     spawned = []\<rparr>"

definition demo_marshal :: "AnalyticsRecord \<rightharpoonup> byte list" where
  "demo_marshal = [demo_record \<mapsto> [1, 2]]"

section \<open>Properties of the digest\<close>

lemma length_word_bytes: "length (word_bytes w) = 4"
  by (simp add: word_bytes_def)

lemma length_concat_word_bytes: "length (concat (map word_bytes ws)) = 4 * length ws"
  by (induction ws) (simp_all add: length_word_bytes)

lemma length_sha256_round: "length (fst (sha256_round k sw)) = length (fst sw)"
  by (auto simp: sha256_round_def Let_def split: prod.splits list.splits)

lemma length_fold_sha256_round:
  "length (fst (fold sha256_round ks sw)) = length (fst sw)"
  by (induction ks arbitrary: sw) (simp_all add: length_sha256_round)

lemma length_sha256_block: "length (sha256_block h blk) = length h"
  by (simp add: sha256_block_def length_fold_sha256_round)

lemma length_sha256_blocks: "length (sha256_blocks n h bs) = length h"
  by (induction n arbitrary: h bs) (simp_all add: length_sha256_block)

text \<open>\<^verbatim>\<open>Sum256\<close> returns a \<^verbatim>\<open>[32]byte\<close>, and its hexadecimal form has 64 digits.\<close>

lemma length_Sum256: "length (Sum256 m) = 32"
  by (simp add: Sum256_def Let_def length_concat_word_bytes length_sha256_blocks sha256_init_def)

lemma length_EncodeToString: "length (EncodeToString bs) = 2 * length bs"
  by (induction bs) (simp_all add: EncodeToString_def)

lemma length_Sign: "length (Signature (Sign n)) = 64"
  by (simp add: Sign_def length_EncodeToString length_Sum256)

text \<open>The digest of the test vector of FIPS 180-4, computed by the definitions.\<close>

lemma Sum256_abc:
  "EncodeToString (Sum256 (bytes_of ''abc''))
     = ''ba7816bf8f01cfea414140de5dae2223b00361a396177a9cb410ff61f20015ad''"
  by code_simp

section \<open>Signing a notification\<close>

text \<open>
  C10: \<^verbatim>\<open>Sign\<close> sets the signature of a notification to the hexadecimal SHA-256 digest
  of the bytes of its command immediately followed by its payload, and the algorithm to
  SHA-256, and changes nothing else; so two notifications with the same command and the
  same payload get the same signature, whatever their signature fields held before.
\<close>

theorem Sign_hash_of_concatenation:
  "Sign n = n\<lparr>SignatureAlgo := crypto_SHA256,
               Signature := EncodeToString (Sum256 (bytes_of (Command n @ Payload n)))\<rparr>
   \<and> (Command n = Command m \<and> Payload n = Payload m
        \<longrightarrow> Signature (Sign n) = Signature (Sign m))"
  by (simp add: Sign_def)

theorem Sign_hash_of_concatenation_witness:
  "Command \<lparr>Command = ''PolicyChanged'', Payload = ''p1'', Signature = [], SignatureAlgo = 0\<rparr>
     = Command \<lparr>Command = ''PolicyChanged'', Payload = ''p1'', Signature = ''old'', SignatureAlgo = 5\<rparr>
   \<and> Payload \<lparr>Command = ''PolicyChanged'', Payload = ''p1'', Signature = [], SignatureAlgo = 0\<rparr>
     = Payload \<lparr>Command = ''PolicyChanged'', Payload = ''p1'', Signature = ''old'', SignatureAlgo = 5\<rparr>
   \<and> Signature (Sign \<lparr>Command = ''PolicyChanged'', Payload = ''p1'', Signature = [], SignatureAlgo = 0\<rparr>)
     = Signature (Sign \<lparr>Command = ''PolicyChanged'', Payload = ''p1'', Signature = ''old'', SignatureAlgo = 5\<rparr>)"
  using Sign_hash_of_concatenation
    [of "\<lparr>Command = ''PolicyChanged'', Payload = ''p1'', Signature = [], SignatureAlgo = 0\<rparr>"
        "\<lparr>Command = ''PolicyChanged'', Payload = ''p1'', Signature = ''old'', SignatureAlgo = 5\<rparr>",
     THEN conjunct2]
  by simp

text \<open>
  Nothing separates the two parts: the signature depends on the concatenation only, so
  moving characters from the end of the command to the start of the payload keeps it.
\<close>

lemma Sign_no_separator:
  "Command n @ Payload n = Command m @ Payload m \<Longrightarrow> Signature (Sign n) = Signature (Sign m)"
  by (simp add: Sign_def)

section \<open>Receiving a notification\<close>

text \<open>
  C2, as stated, fails: a notification whose signature is not the digest of its command
  and payload (here the signature has 6 characters, a digest has 64) and whose command
  is \<^verbatim>\<open>PolicyChanged\<close> puts a reload request on the queue.
\<close>

theorem handleRedisEvent_forged_counterexample:
  "Signature forged_notification \<noteq> Signature (Sign forged_notification)
   \<and> reloadQueue (handleRedisEvent [''m'' \<mapsto> forged_notification]
        (RedisMessage RedisPubSubChannel [] ''m'') None None idle_loader) = [None]"
proof -
  have "length (Signature forged_notification) = 6"
    by (simp add: forged_notification_def)
  then have "Signature forged_notification \<noteq> Signature (Sign forged_notification)"
    using length_Sign [of forged_notification] by auto
  moreover have "reloadQueue (handleRedisEvent [''m'' \<mapsto> forged_notification]
        (RedisMessage RedisPubSubChannel [] ''m'') None None idle_loader) = [None]"
    by (simp add: handleRedisEvent_def forged_notification_def idle_loader_def
        NoticePolicyChanged_def)
  ultimately show ?thesis by simp
qed

text \<open>Every message but a decodable one with a recognised command leaves the loader as it is.\<close>

lemma handleRedisEvent_dropped:
  "handleRedisEvent unmarshal OtherValue handled reloaded st = st"
  "unmarshal body = None \<Longrightarrow>
     handleRedisEvent unmarshal (RedisMessage ch pat body) handled reloaded st = st"
  "unmarshal body = Some n \<Longrightarrow> Command n \<noteq> NoticePolicyChanged \<Longrightarrow>
     Command n \<noteq> NoticeSecretChanged \<Longrightarrow>
     handleRedisEvent unmarshal (RedisMessage ch pat body) handled reloaded st = st"
  by (simp_all add: handleRedisEvent_def)

text \<open>
  C2, amended: the listener never looks at the signature.  A value that is not a redis
  message and a message whose body does not decode change nothing.  For a message that
  decodes to a notification, replacing the signature and the algorithm of the decoded
  notification by anything changes nothing in what the listener does, and it puts one
  reload request (the \<^verbatim>\<open>reloaded\<close> callback) at the end of the queue exactly when the
  command is \<^verbatim>\<open>PolicyChanged\<close> or \<^verbatim>\<open>SecretChanged\<close>.
\<close>

theorem handleRedisEvent_ignores_signature:
  "handleRedisEvent unmarshal OtherValue handled reloaded st = st
   \<and> (unmarshal body = None \<longrightarrow>
        handleRedisEvent unmarshal (RedisMessage ch pat body) handled reloaded st = st)
   \<and> (unmarshal body = Some n \<longrightarrow>
        handleRedisEvent (unmarshal(body \<mapsto> n\<lparr>Signature := sig, SignatureAlgo := alg\<rparr>))
            (RedisMessage ch pat body) handled reloaded st
          = handleRedisEvent unmarshal (RedisMessage ch pat body) handled reloaded st
        \<and> reloadQueue (handleRedisEvent unmarshal (RedisMessage ch pat body) handled reloaded st)
          = (if Command n = NoticePolicyChanged \<or> Command n = NoticeSecretChanged
             then reloadQueue st @ [reloaded] else reloadQueue st))"
  by (simp add: handleRedisEvent_def Let_def split: option.splits)

theorem handleRedisEvent_ignores_signature_witness:
  "[''m'' \<mapsto> Sign forged_notification] ''m'' = Some (Sign forged_notification)
   \<and> handleRedisEvent ([''m'' \<mapsto> Sign forged_notification]
          (''m'' \<mapsto> (Sign forged_notification)\<lparr>Signature := ''forged'', SignatureAlgo := 0\<rparr>))
         (RedisMessage RedisPubSubChannel [] ''m'') None (Some 7) idle_loader
       = handleRedisEvent [''m'' \<mapsto> Sign forged_notification]
           (RedisMessage RedisPubSubChannel [] ''m'') None (Some 7) idle_loader
   \<and> reloadQueue (handleRedisEvent [''m'' \<mapsto> Sign forged_notification]
           (RedisMessage RedisPubSubChannel [] ''m'') None (Some 7) idle_loader) = [Some 7]
   \<and> [''m'' \<mapsto> Sign forged_notification] ''x'' = None
   \<and> handleRedisEvent [''m'' \<mapsto> Sign forged_notification]
         (RedisMessage RedisPubSubChannel [] ''x'') None (Some 7) idle_loader = idle_loader"
  using handleRedisEvent_ignores_signature
    [where unmarshal = "[''m'' \<mapsto> Sign forged_notification]" and body = "''m''"
       and n = "Sign forged_notification" and sig = "''forged''" and alg = 0
       and ch = RedisPubSubChannel and pat = "[]" and handled = None
       and reloaded = "Some 7" and st = idle_loader]
    handleRedisEvent_ignores_signature
    [where unmarshal = "[''m'' \<mapsto> Sign forged_notification]" and body = "''x''"
       and ch = RedisPubSubChannel and pat = "[]" and handled = None
       and reloaded = "Some 7" and st = idle_loader]
  by (simp add: Sign_def forged_notification_def NoticePolicyChanged_def idle_loader_def)



section \<open>The reload loops\<close>

lemma call_callbacks_eq:
  "call_callbacks cb st = st\<lparr>trace := trace st @ map Invoke (non_nil cb)\<rparr>"
proof (induction cb st rule: call_callbacks.induct)
  case (1 st)
  then show ?case by (simp add: non_nil_def)
next
  case (2 cb st)
  then show ?case by (simp add: non_nil_def)
next
  case (3 c cb st)
  then show ?case by (simp add: non_nil_def)
qed

text \<open>Receiving \<open>n\<close> of the values offered moves them to the end of the pending list.\<close>

lemma reloadQueueLoop_recvs_eq:
  "n \<le> length (reloadQueue st) \<Longrightarrow>
   reloadQueueLoop_recvs n st =
     st\<lparr>reloadQueue := drop n (reloadQueue st), requeue := requeue st @ take n (reloadQueue st)\<rparr>"
proof (induction n arbitrary: st)
  case 0
  then show ?case by simp
next
  case (Suc n)
  then obtain fn rest where q: "reloadQueue st = fn # rest"
    by (cases "reloadQueue st") auto
  let ?st' = "st\<lparr>reloadQueue := rest, requeue := requeue st @ [fn]\<rparr>"
  have step: "reloadQueueLoop_recv [] st = Inr ?st'"
    by (simp add: reloadQueueLoop_recv_def call_first_def q)
  have "n \<le> length (reloadQueue ?st')" using Suc.prems q by simp
  from Suc.IH [OF this] show ?case using step q by simp
qed

lemma reloadLoop_tick_pending:
  "requeue st \<noteq> [] \<Longrightarrow>
   reloadLoop_tick [] st =
     Inr (st\<lparr>requeue := [],
             trace := trace st @ StoreReload # map Invoke (non_nil (requeue st))\<rparr>)"
  by (simp add: reloadLoop_tick_def shouldReload_def DoReload_def call_first_def
      call_callbacks_eq)

text \<open>With nothing pending a tick does nothing, whatever \<^verbatim>\<open>complete\<close> is.\<close>

lemma reloadLoop_tick_idle: "requeue st = [] \<Longrightarrow> reloadLoop_tick complete st = Inr st"
  by (simp add: reloadLoop_tick_def shouldReload_def)

text \<open>
  A loop started with a completion callback calls it after the pending callbacks; it is
  called without a check, so a \<^verbatim>\<open>nil\<close> one panics, after the reload.
\<close>

lemma reloadLoop_tick_complete:
  "requeue st \<noteq> [] \<Longrightarrow>
   reloadLoop_tick (Some c # cs) st =
     Inr (st\<lparr>requeue := [],
             trace := trace st @ StoreReload # map Invoke (non_nil (requeue st)) @ [Invoke c]\<rparr>)"
  "requeue st \<noteq> [] \<Longrightarrow> reloadLoop_tick (None # cs) st = Inl NilFuncCall"
  by (simp_all add: reloadLoop_tick_def shouldReload_def DoReload_def call_first_def
      call_callbacks_eq)

text \<open>
  C7: let \<open>N \<ge> 1\<close> change notifications have put their callbacks \<open>fns\<close> on the reload
  queue, and let the queue loop have appended all \<open>N\<close> to the pending list before the
  tick.  Then the tick of the reload loop (started, as \<^verbatim>\<open>Start\<close> does, without a
  completion callback) empties the pending list, calls \<^verbatim>\<open>store.Reload\<close> exactly once,
  and then calls the pending callbacks that are not \<^verbatim>\<open>nil\<close>, in order: the trace grows
  by one reload followed by those calls, and the number of reloads by one.  The next
  tick, with nothing new pending, does nothing.
\<close>

theorem reloadLoop_tick_debounce:
  assumes "reloadQueue st = fns" and "fns \<noteq> []"
  shows "reloadLoop_tick [] (reloadQueueLoop_recvs (length fns) st)
           = Inr (st\<lparr>reloadQueue := [], requeue := [],
                    trace := trace st @ StoreReload # map Invoke (non_nil (requeue st @ fns))\<rparr>)
       \<and> reloads (st\<lparr>reloadQueue := [], requeue := [],
                    trace := trace st @ StoreReload # map Invoke (non_nil (requeue st @ fns))\<rparr>)
           = reloads st + 1
       \<and> reloadLoop_tick []
            (st\<lparr>reloadQueue := [], requeue := [],
                trace := trace st @ StoreReload # map Invoke (non_nil (requeue st @ fns))\<rparr>)
           = Inr (st\<lparr>reloadQueue := [], requeue := [],
                    trace := trace st @ StoreReload # map Invoke (non_nil (requeue st @ fns))\<rparr>)"
proof -
  let ?st1 = "reloadQueueLoop_recvs (length fns) st"
  let ?st' = "st\<lparr>reloadQueue := [], requeue := [],
                trace := trace st @ StoreReload # map Invoke (non_nil (requeue st @ fns))\<rparr>"
  have st1: "?st1 = st\<lparr>reloadQueue := [], requeue := requeue st @ fns\<rparr>"
    using reloadQueueLoop_recvs_eq [of "length fns" st] assms by simp
  then have ne: "requeue ?st1 \<noteq> []" using assms by simp
  have tick: "reloadLoop_tick [] ?st1 = Inr ?st'"
    using reloadLoop_tick_pending [OF ne] by (simp add: st1)
  have count: "reloads ?st' = reloads st + 1"
    by (simp add: reloads_def)
  have idle: "reloadLoop_tick [] ?st' = Inr ?st'"
    by (rule reloadLoop_tick_idle) simp
  from tick count idle show ?thesis by simp
qed

theorem reloadLoop_tick_debounce_witness:
  "reloadQueue pending_loader = [None, Some 3, None]
   \<and> [None, Some 3, None] \<noteq> ([] :: func list)
   \<and> reloadLoop_tick []
        (reloadQueueLoop_recvs (length [None, Some (3 :: nat), None]) pending_loader)
       = Inr \<lparr>reloadQueue = [], requeue = [], trace = [StoreReload, Invoke 3]\<rparr>
   \<and> reloads \<lparr>reloadQueue = [], requeue = [], trace = [StoreReload, Invoke 3]\<rparr> = 1"
proof -
  have q: "reloadQueue pending_loader = [None, Some 3, None]"
    by (simp add: pending_loader_def)
  have ne: "[None, Some 3, None] \<noteq> ([] :: func list)" by simp
  have st: "pending_loader\<lparr>reloadQueue := [], requeue := [],
      trace := trace pending_loader
        @ StoreReload # map Invoke (non_nil (requeue pending_loader @ [None, Some 3, None]))\<rparr>
      = \<lparr>reloadQueue = [], requeue = [], trace = [StoreReload, Invoke 3]\<rparr>"
    by (simp add: pending_loader_def non_nil_def)
  have n: "reloads \<lparr>reloadQueue = [], requeue = [], trace = [StoreReload, Invoke 3]\<rparr> = 1"
    by (simp add: reloads_def)
  show ?thesis
    using reloadLoop_tick_debounce [OF q ne] q n unfolding st
    by blast
qed

text \<open>
  The loop over its ticks: it stops when the context is done, and however many ticks
  pass, it reloads at most once as long as nothing new is appended; with nothing
  pending it does nothing at all.
\<close>

lemma reloadLoop_CtxDone: "reloadLoop complete (CtxDone # es) st = Inr st"
  by simp

lemma reloadLoop_quiet:
  "reloadLoop [] es st = Inr st' \<Longrightarrow>
     (requeue st = [] \<longrightarrow> st' = st) \<and> reloads st' \<le> reloads st + 1"
proof (induction es arbitrary: st)
  case Nil
  then show ?case by simp
next
  case (Cons e es)
  show ?case
  proof (cases e)
    case CtxDone
    then show ?thesis using Cons.prems by simp
  next
    case Tick
    show ?thesis
    proof (cases "requeue st = []")
      case True
      then have "reloadLoop [] es st = Inr st'"
        using Cons.prems Tick by (simp add: reloadLoop_tick_idle)
      then show ?thesis using Cons.IH by blast
    next
      case False
      let ?st1 = "st\<lparr>requeue := [],
        trace := trace st @ StoreReload # map Invoke (non_nil (requeue st))\<rparr>"
      have "reloadLoop [] es ?st1 = Inr st'"
        using Cons.prems Tick reloadLoop_tick_pending [OF False] by simp
      then have "st' = ?st1" using Cons.IH [of ?st1] by simp
      then show ?thesis using False by (simp add: reloads_def)
    qed
  qed
qed

text \<open>
  From the bus to the store: any number \<open>N \<ge> 1\<close> of recognised notifications, each
  received and queued in turn between two ticks, cause one reload at the next tick, not
  \<open>N\<close>; their callbacks are \<^verbatim>\<open>nil\<close> and nothing else is called.
\<close>

lemma deliver_recognised:
  "recognised unmarshal v \<Longrightarrow> reloadQueue st = [] \<Longrightarrow>
   deliver unmarshal v st = st\<lparr>requeue := requeue st @ [None]\<rparr>"
  by (auto simp: deliver_def recognised_def handleRedisEvent_def reloadQueueLoop_recv_def
      call_first_def split: redis_value.splits option.splits)

lemma fold_deliver_recognised:
  "\<forall>v \<in> set vs. recognised unmarshal v \<Longrightarrow> reloadQueue st = [] \<Longrightarrow>
   fold (deliver unmarshal) vs st = st\<lparr>requeue := requeue st @ replicate (length vs) None\<rparr>"
proof (induction vs arbitrary: st)
  case Nil
  then show ?case by simp
next
  case (Cons v vs)
  let ?st = "st\<lparr>requeue := requeue st @ [None]\<rparr>"
  have "deliver unmarshal v st = ?st"
    using Cons.prems by (simp add: deliver_recognised)
  moreover have "fold (deliver unmarshal) vs ?st
      = ?st\<lparr>requeue := requeue ?st @ replicate (length vs) None\<rparr>"
    using Cons.prems by (intro Cons.IH) auto
  ultimately show ?case by (simp add: replicate_app_Cons_same)
qed

lemma notifications_one_reload:
  assumes "\<forall>v \<in> set vs. recognised unmarshal v" and "vs \<noteq> []"
    and "reloadQueue st = []" and "requeue st = []"
  shows "reloadLoop_tick [] (fold (deliver unmarshal) vs st)
           = Inr (st\<lparr>requeue := [], trace := trace st @ [StoreReload]\<rparr>)"
proof -
  have f: "fold (deliver unmarshal) vs st = st\<lparr>requeue := replicate (length vs) None\<rparr>"
    using fold_deliver_recognised [OF assms(1,3)] assms(4) by simp
  have nn: "non_nil (replicate n None) = []" for n
    by (induction n) (simp_all add: non_nil_def)
  have "requeue (st\<lparr>requeue := replicate (length vs) None\<rparr>) \<noteq> []"
    using assms(2) by simp
  from reloadLoop_tick_pending [OF this] show ?thesis
    unfolding f by (simp add: nn)
qed

section \<open>The signal handler\<close>

lemma SetupSignalHandler_inv:
  "SetupSignalHandler p0 = Inr p \<Longrightarrow> exited p0 = None \<Longrightarrow> handler_inv p"
  by (auto simp: SetupSignalHandler_def handler_inv_def split: if_splits)

text \<open>The handler may be installed once: a second call panics.\<close>

lemma SetupSignalHandler_twice:
  "SetupSignalHandler p0 = Inr p \<Longrightarrow> SetupSignalHandler p = Inl CloseOfClosedChannel"
  by (auto simp: SetupSignalHandler_def split: if_splits)

lemma handler_step_inv: "handler_inv p \<Longrightarrow> handler_inv (handler_step p)"
  by (auto simp: handler_inv_def handler_step_def
      split: option.splits handler_pc.splits list.splits)

lemma proc_step_inv: "handler_inv p \<Longrightarrow> handler_inv (proc_step e p)"
proof (cases e)
  case (Signal s)
  assume "handler_inv p"
  then show ?thesis using Signal
    by (auto simp: proc_step_def handler_inv_def split: option.splits handler_pc.splits)
next
  case HandlerStep
  assume "handler_inv p"
  then show ?thesis using HandlerStep handler_step_inv [of p]
    by (simp add: proc_step_def)
next
  case CallRequestShutdown
  assume "handler_inv p"
  then show ?thesis using CallRequestShutdown
    by (auto simp: proc_step_def handler_inv_def RequestShutdown_def offer_def
        shutdownSignals_def split: option.splits handler_pc.splits)
next
  case (Work k)
  assume "handler_inv p"
  then show ?thesis using Work
    by (auto simp: proc_step_def handler_inv_def split: option.splits handler_pc.splits)
qed

lemma proc_run_inv: "handler_inv p \<Longrightarrow> handler_inv (proc_run es p)"
  unfolding proc_run_def by (induction es arbitrary: p) (simp_all add: proc_step_inv)

lemma handler_inv_closes: "handler_inv p \<Longrightarrow> stop_closes p \<le> 1"
  by (auto simp: handler_inv_def split: option.splits handler_pc.splits)

text \<open>An exited process does nothing any more.\<close>

lemma proc_run_exited: "exited p \<noteq> None \<Longrightarrow> proc_run es p = p"
  unfolding proc_run_def by (induction es) (simp_all add: proc_step_def)

lemma proc_run_Work:
  "exited p = None \<Longrightarrow> proc_run (map Work ws) p = p\<lparr>work_done := work_done p @ ws\<rparr>"
  unfolding proc_run_def
proof (induction ws arbitrary: p)
  case Nil
  then show ?case by simp
next
  case (Cons w ws)
  have "proc_step (Work w) p = p\<lparr>work_done := work_done p @ [w]\<rparr>"
    using Cons.prems by (simp add: proc_step_def)
  moreover have "exited (p\<lparr>work_done := work_done p @ [w]\<rparr>) = None"
    using Cons.prems by simp
  ultimately show ?case using Cons.IH [of "p\<lparr>work_done := work_done p @ [w]\<rparr>"] by simp
qed

text \<open>
  A termination signal, any amount of other work, and then the handler goroutine: the
  goroutine moves on by one position.
\<close>

lemma signal_then_handler:
  assumes "handler_inv p" and "s \<in> set shutdownSignals" and "exited p = None"
  shows "handler (proc_run (Signal s # map Work ws @ [HandlerStep]) p) =
           (if handler p = Some AwaitFirst then Some AwaitSecond else Some Finished)"
proof -
  obtain b where b: "shutdownHandler p = Some b"
    using assms(1) by (auto simp: handler_inv_def)
  let ?p1 = "proc_step (Signal s) p"
  have p1: "?p1 = p\<lparr>shutdownHandler := Some (snd (offer s b))\<rparr>"
    using assms b by (simp add: proc_step_def)
  have ne: "snd (offer s b) \<noteq> []" by (cases b) (auto simp: offer_def)
  have ex1: "exited ?p1 = None" using p1 assms by simp
  let ?p2 = "proc_run (map Work ws) ?p1"
  have p2: "?p2 = ?p1\<lparr>work_done := work_done ?p1 @ ws\<rparr>"
    by (rule proc_run_Work [OF ex1])
  have run: "proc_run (Signal s # map Work ws @ [HandlerStep]) p = proc_step HandlerStep ?p2"
    by (simp add: proc_run_def)
  obtain a rest where ar: "snd (offer s b) = a # rest"
    using ne by (cases "snd (offer s b)") auto
  have p2': "?p2 = p\<lparr>shutdownHandler := Some (a # rest), work_done := work_done p @ ws\<rparr>"
    using p2 p1 ar by simp
  have "handler p = Some AwaitFirst \<or> handler p = Some AwaitSecond"
    using assms(1,3) by (auto simp: handler_inv_def split: option.splits handler_pc.splits)
  then show ?thesis
    unfolding run p2'
    by (auto simp: proc_step_def handler_step_def assms(3))
qed

text \<open>
  C8: let \<^verbatim>\<open>SetupSignalHandler\<close> have installed the handler in a running process.  The
  returned channel \<^verbatim>\<open>stop\<close> is open at first.  After a first termination signal has
  arrived and the handler goroutine has run, with any other work \<open>ws1\<close> in between,
  \<^verbatim>\<open>stop\<close> has been closed once and the process is running.  After a second termination
  signal and the handler goroutine again, with any other work \<open>ws2\<close> in between, the
  process has exited with status 1, and whatever comes after (\<open>es\<close>: more signals,
  remaining shutdown work) changes nothing any more.  In every run \<open>es'\<close> from the
  installation \<^verbatim>\<open>stop\<close> is closed at most once.
\<close>

theorem SetupSignalHandler_two_signals:
  assumes "SetupSignalHandler p0 = Inr p" and "exited p0 = None"
    and "s1 \<in> set shutdownSignals" and "s2 \<in> set shutdownSignals"
  shows "stop_closes p = 0 \<and> exited p = None
       \<and> stop_closes (proc_run (Signal s1 # map Work ws1 @ [HandlerStep]) p) = 1
       \<and> exited (proc_run (Signal s1 # map Work ws1 @ [HandlerStep]) p) = None
       \<and> stop_closes (proc_run (Signal s2 # map Work ws2 @ [HandlerStep])
            (proc_run (Signal s1 # map Work ws1 @ [HandlerStep]) p)) = 1
       \<and> exited (proc_run (Signal s2 # map Work ws2 @ [HandlerStep])
            (proc_run (Signal s1 # map Work ws1 @ [HandlerStep]) p)) = Some 1
       \<and> proc_run es (proc_run (Signal s2 # map Work ws2 @ [HandlerStep])
            (proc_run (Signal s1 # map Work ws1 @ [HandlerStep]) p))
          = proc_run (Signal s2 # map Work ws2 @ [HandlerStep])
              (proc_run (Signal s1 # map Work ws1 @ [HandlerStep]) p)
       \<and> stop_closes (proc_run es' p) \<le> 1"
proof -
  let ?q1 = "proc_run (Signal s1 # map Work ws1 @ [HandlerStep]) p"
  let ?q2 = "proc_run (Signal s2 # map Work ws2 @ [HandlerStep]) ?q1"
  have inv: "handler_inv p" by (rule SetupSignalHandler_inv [OF assms(1,2)])
  have hp: "handler p = Some AwaitFirst" and ep: "exited p = None" and cp: "stop_closes p = 0"
    using assms(1,2) by (auto simp: SetupSignalHandler_def split: if_splits)
  have inv1: "handler_inv ?q1" by (rule proc_run_inv [OF inv])
  have h1: "handler ?q1 = Some AwaitSecond"
    using signal_then_handler [OF inv assms(3) ep] hp by simp
  have c1: "stop_closes ?q1 = 1" and e1: "exited ?q1 = None"
    using inv1 h1 by (auto simp: handler_inv_def)
  have inv2: "handler_inv ?q2" by (rule proc_run_inv [OF inv1])
  have h2: "handler ?q2 = Some Finished"
    using signal_then_handler [OF inv1 assms(4) e1] h1 by simp
  have c2: "stop_closes ?q2 = 1" and e2: "exited ?q2 = Some 1"
    using inv2 h2 by (auto simp: handler_inv_def)
  have "proc_run es ?q2 = ?q2" by (rule proc_run_exited) (simp add: e2)
  moreover have "stop_closes (proc_run es' p) \<le> 1"
    by (rule handler_inv_closes [OF proc_run_inv [OF inv]])
  ultimately show ?thesis using cp ep c1 e1 c2 e2 by simp
qed

theorem SetupSignalHandler_two_signals_witness:
  "SetupSignalHandler fresh_process = Inr armed_process
   \<and> exited fresh_process = None
   \<and> SIGINT \<in> set shutdownSignals \<and> SIGTERM \<in> set shutdownSignals
   \<and> stop_closes (proc_run (Signal SIGINT # map Work [1] @ [HandlerStep]) armed_process) = 1
   \<and> exited (proc_run (Signal SIGTERM # map Work [2] @ [HandlerStep])
        (proc_run (Signal SIGINT # map Work [1] @ [HandlerStep]) armed_process)) = Some 1
   \<and> proc_run [Work 3] (proc_run (Signal SIGTERM # map Work [2] @ [HandlerStep])
        (proc_run (Signal SIGINT # map Work [1] @ [HandlerStep]) armed_process))
      = proc_run (Signal SIGTERM # map Work [2] @ [HandlerStep])
          (proc_run (Signal SIGINT # map Work [1] @ [HandlerStep]) armed_process)"
proof -
  have a: "SetupSignalHandler fresh_process = Inr armed_process"
    by (simp add: SetupSignalHandler_def fresh_process_def armed_process_def)
  have b: "exited fresh_process = None" by (simp add: fresh_process_def)
  have c: "SIGINT \<in> set shutdownSignals" and d: "SIGTERM \<in> set shutdownSignals"
    by (simp_all add: shutdownSignals_def)
  show ?thesis
    using SetupSignalHandler_two_signals [OF a b c d, of "[1]" "[2]" "[Work 3]" "[]"] a b c d
    by simp
qed

text \<open>
  \<^verbatim>\<open>RequestShutdown\<close> never blocks: it reports whether the handler was notified, which
  fails when no handler is installed or two signals are waiting already.
\<close>

lemma RequestShutdown_nonblocking:
  "RequestShutdown p =
     Inr (case shutdownHandler p of
            None \<Rightarrow> (False, p)
          | Some b \<Rightarrow>
              if length b < 2 then (True, p\<lparr>shutdownHandler := Some (b @ [SIGINT])\<rparr>)
              else (False, p\<lparr>shutdownHandler := Some b\<rparr>))"
  by (simp add: RequestShutdown_def shutdownSignals_def offer_def split: option.splits)

section \<open>Expiry of a secret\<close>

lemma wrap_int64_le: "- (2 ^ 63) \<le> x \<Longrightarrow> wrap_int64 x \<le> x"
proof -
  assume "- (2 ^ 63) \<le> x"
  then have "0 \<le> x + 2 ^ 63" by simp
  then have "(x + 2 ^ 63) mod 2 ^ 64 \<le> x + 2 ^ 63"
    by (rule zmod_le_nonneg_dividend)
  then show ?thesis by (simp add: wrap_int64_def)
qed

lemma wrap_int64_id: "- (2 ^ 63) \<le> x \<Longrightarrow> x < 2 ^ 63 \<Longrightarrow> wrap_int64 x = x"
proof -
  assume "- (2 ^ 63) \<le> x" and "x < 2 ^ 63"
  then have "0 \<le> x + 2 ^ 63" and "x + 2 ^ 63 < 2 ^ 64" by simp_all
  then have "(x + 2 ^ 63) mod 2 ^ 64 = x + 2 ^ 63"
    by (rule mod_pos_pos_trivial)
  then show ?thesis by (simp add: wrap_int64_def)
qed

lemma wrap_int64_over:
  "2 ^ 63 \<le> x \<Longrightarrow> x < 2 ^ 63 + 2 ^ 64 \<Longrightarrow> wrap_int64 x = x - 2 ^ 64"
proof -
  assume "2 ^ 63 \<le> x" and "x < 2 ^ 63 + 2 ^ 64"
  then have "0 \<le> x + 2 ^ 63 - 2 ^ 64" and "x + 2 ^ 63 - 2 ^ 64 < 2 ^ 64" by simp_all
  then have "(x + 2 ^ 63 - 2 ^ 64) mod 2 ^ 64 = x + 2 ^ 63 - 2 ^ 64"
    by (rule mod_pos_pos_trivial)
  moreover have "(x + 2 ^ 63 - 2 ^ 64) mod 2 ^ 64 = (x + 2 ^ 63) mod 2 ^ 64"
    by (rule minus_mod_self2)
  ultimately show ?thesis by (simp add: wrap_int64_def)
qed

text \<open>
  C5: at every reading \<open>now\<close> of the clock from the third second of the epoch on, a
  secret whose \<^verbatim>\<open>Expires\<close> is the Unix time of \<open>now\<close> less one second (a set expiry:
  it is at least 1) is expired; and at every reading of the clock, a secret whose
  \<^verbatim>\<open>Expires\<close> is 0 is not.
\<close>

theorem KeyExpired_boundary:
  "(2 \<le> now div 1000000000 \<longrightarrow> KeyExpired now (now div 1000000000 - 1))
   \<and> \<not> KeyExpired now 0"
proof -
  have "KeyExpired now (now div 1000000000 - 1)" if q: "2 \<le> now div 1000000000"
  proof -
    let ?e = "now div 1000000000 - 1"
    have "- (2 ^ 63) \<le> ?e + unixToInternal"
      using q by (simp add: unixToInternal_def)
    then have "wrap_int64 (?e + unixToInternal) \<le> ?e + unixToInternal"
      by (rule wrap_int64_le)
    then have "seconds (time_Unix ?e) < seconds (time_Now now)"
      by (simp add: time_Unix_def time_Now_def)
    then show ?thesis using q by (simp add: KeyExpired_def After_def)
  qed
  moreover have "\<not> KeyExpired now 0" by (simp add: KeyExpired_def)
  ultimately show ?thesis by simp
qed

theorem KeyExpired_boundary_witness:
  "2 \<le> (1700000000500000000 :: int) div 1000000000
   \<and> KeyExpired 1700000000500000000 (1700000000500000000 div 1000000000 - 1)
   \<and> \<not> KeyExpired 1700000000500000000 0"
  using KeyExpired_boundary [of 1700000000500000000] by simp

text \<open>
  An expiry whose sum with the offset fits an \<^verbatim>\<open>int64\<close> is expired from the first
  nanosecond after it on; an expiry below 1 is never expired.
\<close>

lemma KeyExpired_iff:
  assumes "expires < 2 ^ 63 - unixToInternal"
  shows "KeyExpired now expires \<longleftrightarrow> 1 \<le> expires \<and> expires * 1000000000 < now"
proof (cases "1 \<le> expires")
  case False
  then show ?thesis by (simp add: KeyExpired_def)
next
  case True
  let ?q = "now div 1000000000" and ?r = "now mod 1000000000"
  have now: "now = ?q * 1000000000 + ?r" by simp
  have r: "0 \<le> ?r" "?r < 1000000000" by simp_all
  have "- (2 ^ 63) \<le> expires + unixToInternal"
    using True by (simp add: unixToInternal_def)
  moreover have "expires + unixToInternal < 2 ^ 63" using assms by simp
  ultimately have w: "wrap_int64 (expires + unixToInternal) = expires + unixToInternal"
    by (rule wrap_int64_id)
  have "KeyExpired now expires \<longleftrightarrow> expires < ?q \<or> (expires = ?q \<and> 0 < ?r)"
    using True w by (auto simp: KeyExpired_def After_def time_Unix_def time_Now_def)
  also have "\<dots> \<longleftrightarrow> expires * 1000000000 < now"
  proof
    assume "expires < ?q \<or> (expires = ?q \<and> 0 < ?r)"
    then show "expires * 1000000000 < now"
    proof
      assume "expires < ?q"
      then have "expires * 1000000000 + 1000000000 \<le> ?q * 1000000000" by simp
      then show ?thesis using now r by linarith
    next
      assume "expires = ?q \<and> 0 < ?r"
      then show ?thesis using now by linarith
    qed
  next
    assume lt: "expires * 1000000000 < now"
    show "expires < ?q \<or> (expires = ?q \<and> 0 < ?r)"
    proof (rule ccontr)
      assume "\<not> (expires < ?q \<or> (expires = ?q \<and> 0 < ?r))"
      then have "?q < expires \<or> (expires = ?q \<and> ?r = 0)" using r by auto
      then show False
      proof
        assume "?q < expires"
        then have "?q * 1000000000 + 1000000000 \<le> expires * 1000000000" by simp
        then show False using lt now r by linarith
      next
        assume "expires = ?q \<and> ?r = 0"
        then show False using lt now by linarith
      qed
    qed
  qed
  finally show ?thesis using True by simp
qed

text \<open>
  An expiry so far in the future that the sum wraps around is expired at every reading
  of the clock after the epoch: the largest \<^verbatim>\<open>int64\<close>, for one.
\<close>

lemma KeyExpired_wrapped:
  assumes "2 ^ 63 - unixToInternal \<le> expires" and "expires < 2 ^ 63" and "0 \<le> now"
  shows "KeyExpired now expires"
proof -
  have "2 ^ 63 \<le> expires + unixToInternal" using assms(1) by simp
  moreover have "expires + unixToInternal < 2 ^ 63 + 2 ^ 64"
    using assms(2) by (simp add: unixToInternal_def)
  ultimately have "wrap_int64 (expires + unixToInternal) = expires + unixToInternal - 2 ^ 64"
    by (rule wrap_int64_over)
  then have "wrap_int64 (expires + unixToInternal) < 0"
    using assms(2) by (simp add: unixToInternal_def)
  moreover have "0 \<le> now div 1000000000" using assms(3) by simp
  then have "0 < seconds (time_Now now)" by (simp add: time_Now_def unixToInternal_def)
  moreover have "1 \<le> expires" using assms(1) by (simp add: unixToInternal_def)
  ultimately show ?thesis by (simp add: KeyExpired_def After_def time_Unix_def)
qed

lemma KeyExpired_MaxInt64: "KeyExpired demo_now 9223372036854775807"
  by (rule KeyExpired_wrapped) (simp_all add: unixToInternal_def demo_now_def)

section \<open>Authentication\<close>

text \<open>The whole of \<^verbatim>\<open>AuthFunc\<close>, with the library and the key function unfolded.\<close>

lemma AuthFunc_flow:
  "AuthFunc lib get now header =
     (if header = [] then Abort ErrMissingHeader HeaderEmpty
      else case ParseUnverified lib (Sscanf_Bearer lib header) of
        None \<Rightarrow> Abort ErrSignatureInvalid (ErrorText (Error_string lib Malformed))
      | Some token \<Rightarrow>
          if \<not> Method_HMAC token
          then Abort ErrSignatureInvalid
                 (ErrorText (Error_string lib (Unverifiable UnexpectedSigningMethod)))
          else case Header_kid token of
            None \<Rightarrow> Abort ErrSignatureInvalid
                      (ErrorText (Error_string lib (Unverifiable ErrMissingKID)))
          | Some kid \<Rightarrow>
              if snd (get kid)
              then Abort ErrSignatureInvalid
                     (ErrorText (Error_string lib (Unverifiable ErrMissingSecret)))
              else if \<not> Verify lib token (Key (fst (get kid)))
              then Abort ErrSignatureInvalid (ErrorText (Error_string lib InvalidSignature))
              else if \<not> ClaimsValid lib token
              then Abort ErrSignatureInvalid (ErrorText (Error_string lib InvalidClaims))
              else if KeyExpired now (Expires (fst (get kid)))
              then Abort ErrExpired (ExpiredAt (Expires (fst (get kid))))
              else Next (Username (fst (get kid))))"
  by (auto simp: AuthFunc_def ParseWithClaims_def keyFunc_def Let_def
      split: option.splits prod.splits sum.splits)

text \<open>When the token passes every check, the expiry of the resolved secret decides.\<close>

lemma AuthFunc_accepted:
  "accepted lib get header token kid \<Longrightarrow>
   AuthFunc lib get now header =
     (if KeyExpired now (Expires (fst (get kid)))
      then Abort ErrExpired (ExpiredAt (Expires (fst (get kid))))
      else Next (Username (fst (get kid))))"
  by (simp add: AuthFunc_flow accepted_def)

text \<open>
  When the header is not empty and the token fails a check, the library's error for
  the first failing check is reported under \<^verbatim>\<open>ErrSignatureInvalid\<close>.
\<close>

lemma AuthFunc_rejected:
  assumes "header \<noteq> []" and "\<forall>token kid. \<not> accepted lib get header token kid"
  shows "\<exists>e. AuthFunc lib get now header
              = Abort ErrSignatureInvalid (ErrorText (Error_string lib e))"
proof (cases "ParseUnverified lib (Sscanf_Bearer lib header)")
  case None
  then show ?thesis using assms(1) by (auto simp: AuthFunc_flow)
next
  case (Some token)
  show ?thesis
  proof (cases "Header_kid token")
    case None
    then show ?thesis using Some assms(1) by (auto simp: AuthFunc_flow)
  next
    case (Some kid)
    have "\<not> accepted lib get header token kid" using assms(2) by blast
    then show ?thesis
      using Some \<open>ParseUnverified lib (Sscanf_Bearer lib header) = Some token\<close> assms(1)
      by (auto simp: AuthFunc_flow accepted_def)
  qed
qed

lemma AuthFunc_outcome:
  "AuthFunc lib get now header = out \<Longrightarrow>
   (header = [] \<and> out = Abort ErrMissingHeader HeaderEmpty)
   \<or> (header \<noteq> [] \<and> (\<forall>token kid. \<not> accepted lib get header token kid)
       \<and> (\<exists>e. out = Abort ErrSignatureInvalid (ErrorText (Error_string lib e))))
   \<or> (\<exists>token kid. accepted lib get header token kid
       \<and> KeyExpired now (Expires (fst (get kid)))
       \<and> out = Abort ErrExpired (ExpiredAt (Expires (fst (get kid)))))
   \<or> (\<exists>token kid. accepted lib get header token kid
       \<and> \<not> KeyExpired now (Expires (fst (get kid)))
       \<and> out = Next (Username (fst (get kid))))"
proof (cases "header = []")
  case True
  assume "AuthFunc lib get now header = out"
  then show ?thesis using True by (simp add: AuthFunc_flow)
next
  case False
  assume out: "AuthFunc lib get now header = out"
  show ?thesis
  proof (cases "\<exists>token kid. accepted lib get header token kid")
    case True
    then obtain token kid where acc: "accepted lib get header token kid" by blast
    show ?thesis
      using AuthFunc_accepted [OF acc, of now] out acc
      by (cases "KeyExpired now (Expires (fst (get kid)))") auto
  next
    case no: False
    then have "\<forall>token kid. \<not> accepted lib get header token kid" by blast
    from AuthFunc_rejected [OF False this, of now] show ?thesis
      using out False no by auto
  qed
qed

text \<open>
  C6, as stated, fails: a request with an empty \<^verbatim>\<open>Authorization\<close> header is answered
  with the error \<^verbatim>\<open>ErrMissingHeader\<close>, which is none of the four.
\<close>

theorem AuthFunc_missing_header_counterexample:
  "AuthFunc demo_lib demo_get 0 [] = Abort ErrMissingHeader HeaderEmpty"
  by (simp add: AuthFunc_def)

text \<open>
  C6, amended.  A request with an empty header is answered with \<^verbatim>\<open>ErrMissingHeader\<close>.
  A request with a header whose token passes every check (full success when the
  resolved secret is not expired) is passed on with the user name of the resolved
  secret bound, or, when the resolved secret is expired, answered with \<^verbatim>\<open>ErrExpired\<close>
  and the expiry of that secret.  A request with a header whose token fails a check is
  answered with \<^verbatim>\<open>ErrSignatureInvalid\<close> and the text of the library's error: that of a
  malformed token, of the key function's error (an unexpected signing method, a
  missing key id, a missing secret), of an invalid signature or of invalid claims,
  whichever check fails first.  Conversely, every response is one of these: an error
  response carries one of the three codes, each only in its case, and a request is
  passed on only on full success, with that user name.  The handler never panics.
\<close>

theorem AuthFunc_responses:
  "(header = [] \<longrightarrow> AuthFunc lib get now header = Abort ErrMissingHeader HeaderEmpty)
   \<and> (accepted lib get header token kid \<and> \<not> KeyExpired now (Expires (fst (get kid))) \<longrightarrow>
        AuthFunc lib get now header = Next (Username (fst (get kid))))
   \<and> (accepted lib get header token kid \<and> KeyExpired now (Expires (fst (get kid))) \<longrightarrow>
        AuthFunc lib get now header = Abort ErrExpired (ExpiredAt (Expires (fst (get kid)))))
   \<and> (header \<noteq> [] \<and> ParseUnverified lib (Sscanf_Bearer lib header) = None \<longrightarrow>
        AuthFunc lib get now header
          = Abort ErrSignatureInvalid (ErrorText (Error_string lib Malformed)))
   \<and> (header \<noteq> [] \<and> ParseUnverified lib (Sscanf_Bearer lib header) = Some token
        \<and> \<not> Method_HMAC token \<longrightarrow>
        AuthFunc lib get now header
          = Abort ErrSignatureInvalid
              (ErrorText (Error_string lib (Unverifiable UnexpectedSigningMethod))))
   \<and> (header \<noteq> [] \<and> ParseUnverified lib (Sscanf_Bearer lib header) = Some token
        \<and> Method_HMAC token \<and> Header_kid token = None \<longrightarrow>
        AuthFunc lib get now header
          = Abort ErrSignatureInvalid (ErrorText (Error_string lib (Unverifiable ErrMissingKID))))
   \<and> (header \<noteq> [] \<and> ParseUnverified lib (Sscanf_Bearer lib header) = Some token
        \<and> Method_HMAC token \<and> Header_kid token = Some kid \<and> snd (get kid) \<longrightarrow>
        AuthFunc lib get now header
          = Abort ErrSignatureInvalid
              (ErrorText (Error_string lib (Unverifiable ErrMissingSecret))))
   \<and> (header \<noteq> [] \<and> ParseUnverified lib (Sscanf_Bearer lib header) = Some token
        \<and> Method_HMAC token \<and> Header_kid token = Some kid \<and> \<not> snd (get kid)
        \<and> \<not> Verify lib token (Key (fst (get kid))) \<longrightarrow>
        AuthFunc lib get now header
          = Abort ErrSignatureInvalid (ErrorText (Error_string lib InvalidSignature)))
   \<and> (header \<noteq> [] \<and> ParseUnverified lib (Sscanf_Bearer lib header) = Some token
        \<and> Method_HMAC token \<and> Header_kid token = Some kid \<and> \<not> snd (get kid)
        \<and> Verify lib token (Key (fst (get kid))) \<and> \<not> ClaimsValid lib token \<longrightarrow>
        AuthFunc lib get now header
          = Abort ErrSignatureInvalid (ErrorText (Error_string lib InvalidClaims)))
   \<and> (AuthFunc lib get now header = Next u \<longrightarrow>
        (\<exists>t k. accepted lib get header t k \<and> \<not> KeyExpired now (Expires (fst (get k)))
           \<and> u = Username (fst (get k))))
   \<and> (AuthFunc lib get now header = Abort c msg \<longrightarrow>
        (c = ErrMissingHeader \<and> msg = HeaderEmpty \<and> header = [])
        \<or> (c = ErrSignatureInvalid \<and> header \<noteq> []
            \<and> (\<forall>t k. \<not> accepted lib get header t k)
            \<and> (\<exists>e. msg = ErrorText (Error_string lib e)))
        \<or> (c = ErrExpired
            \<and> (\<exists>t k. accepted lib get header t k \<and> KeyExpired now (Expires (fst (get k)))
                  \<and> msg = ExpiredAt (Expires (fst (get k))))))
   \<and> AuthFunc lib get now header \<noteq> Panics p"
proof -
  have c1: "header = [] \<longrightarrow> AuthFunc lib get now header = Abort ErrMissingHeader HeaderEmpty"
    by (simp add: AuthFunc_flow)
  have c2: "accepted lib get header token kid \<and> \<not> KeyExpired now (Expires (fst (get kid))) \<longrightarrow>
        AuthFunc lib get now header = Next (Username (fst (get kid)))"
    using AuthFunc_accepted [of lib get header token kid now] by simp
  have c3: "accepted lib get header token kid \<and> KeyExpired now (Expires (fst (get kid))) \<longrightarrow>
        AuthFunc lib get now header = Abort ErrExpired (ExpiredAt (Expires (fst (get kid))))"
    using AuthFunc_accepted [of lib get header token kid now] by simp
  have c4: "header \<noteq> [] \<and> ParseUnverified lib (Sscanf_Bearer lib header) = None \<longrightarrow>
        AuthFunc lib get now header
          = Abort ErrSignatureInvalid (ErrorText (Error_string lib Malformed))"
    by (simp add: AuthFunc_flow)
  have c5: "header \<noteq> [] \<and> ParseUnverified lib (Sscanf_Bearer lib header) = Some token
        \<and> \<not> Method_HMAC token \<longrightarrow>
        AuthFunc lib get now header
          = Abort ErrSignatureInvalid
              (ErrorText (Error_string lib (Unverifiable UnexpectedSigningMethod)))"
    by (simp add: AuthFunc_flow)
  have c6: "header \<noteq> [] \<and> ParseUnverified lib (Sscanf_Bearer lib header) = Some token
        \<and> Method_HMAC token \<and> Header_kid token = None \<longrightarrow>
        AuthFunc lib get now header
          = Abort ErrSignatureInvalid (ErrorText (Error_string lib (Unverifiable ErrMissingKID)))"
    by (simp add: AuthFunc_flow)
  have c7: "header \<noteq> [] \<and> ParseUnverified lib (Sscanf_Bearer lib header) = Some token
        \<and> Method_HMAC token \<and> Header_kid token = Some kid \<and> snd (get kid) \<longrightarrow>
        AuthFunc lib get now header
          = Abort ErrSignatureInvalid
              (ErrorText (Error_string lib (Unverifiable ErrMissingSecret)))"
    by (simp add: AuthFunc_flow)
  have c8: "header \<noteq> [] \<and> ParseUnverified lib (Sscanf_Bearer lib header) = Some token
        \<and> Method_HMAC token \<and> Header_kid token = Some kid \<and> \<not> snd (get kid)
        \<and> \<not> Verify lib token (Key (fst (get kid))) \<longrightarrow>
        AuthFunc lib get now header
          = Abort ErrSignatureInvalid (ErrorText (Error_string lib InvalidSignature))"
    by (simp add: AuthFunc_flow)
  have c9: "header \<noteq> [] \<and> ParseUnverified lib (Sscanf_Bearer lib header) = Some token
        \<and> Method_HMAC token \<and> Header_kid token = Some kid \<and> \<not> snd (get kid)
        \<and> Verify lib token (Key (fst (get kid))) \<and> \<not> ClaimsValid lib token \<longrightarrow>
        AuthFunc lib get now header
          = Abort ErrSignatureInvalid (ErrorText (Error_string lib InvalidClaims))"
    by (simp add: AuthFunc_flow)
  have c10: "AuthFunc lib get now header = Next u \<longrightarrow>
        (\<exists>t k. accepted lib get header t k \<and> \<not> KeyExpired now (Expires (fst (get k)))
           \<and> u = Username (fst (get k)))"
    using AuthFunc_outcome [of lib get now header "Next u"] by auto
  have c11: "AuthFunc lib get now header = Abort c msg \<longrightarrow>
        (c = ErrMissingHeader \<and> msg = HeaderEmpty \<and> header = [])
        \<or> (c = ErrSignatureInvalid \<and> header \<noteq> []
            \<and> (\<forall>t k. \<not> accepted lib get header t k)
            \<and> (\<exists>e. msg = ErrorText (Error_string lib e)))
        \<or> (c = ErrExpired
            \<and> (\<exists>t k. accepted lib get header t k \<and> KeyExpired now (Expires (fst (get k)))
                  \<and> msg = ExpiredAt (Expires (fst (get k)))))"
    using AuthFunc_outcome [of lib get now header "Abort c msg"] by auto
  have c12: "AuthFunc lib get now header \<noteq> Panics p"
    using AuthFunc_outcome [of lib get now header "Panics p"] by auto
  from c1 c2 c3 c4 c5 c6 c7 c8 c9 c10 c11 c12 show ?thesis by (intro conjI)
qed

theorem AuthFunc_responses_witness:
  "accepted demo_lib demo_get ''Bearer tok'' \<lparr>Method_HMAC = True, Header_kid = Some ''k1''\<rparr> ''k1''
   \<and> \<not> KeyExpired demo_now (Expires (fst (demo_get ''k1'')))
   \<and> AuthFunc demo_lib demo_get demo_now ''Bearer tok'' = Next ''colin''
   \<and> accepted demo_lib demo_get ''Bearer old'' \<lparr>Method_HMAC = True, Header_kid = Some ''k2''\<rparr> ''k2''
   \<and> KeyExpired demo_now (Expires (fst (demo_get ''k2'')))
   \<and> AuthFunc demo_lib demo_get demo_now ''Bearer old'' = Abort ErrExpired (ExpiredAt 1600000000)
   \<and> ''Bearer bad'' \<noteq> []
   \<and> ParseUnverified demo_lib (Sscanf_Bearer demo_lib ''Bearer bad'') = None
   \<and> AuthFunc demo_lib demo_get demo_now ''Bearer bad''
       = Abort ErrSignatureInvalid (ErrorText ''token rejected'')"
proof -
  have acc1: "accepted demo_lib demo_get ''Bearer tok''
      \<lparr>Method_HMAC = True, Header_kid = Some ''k1''\<rparr> ''k1''"
    by (simp add: accepted_def demo_lib_def demo_get_def)
  have live: "\<not> KeyExpired demo_now (Expires (fst (demo_get ''k1'')))"
    by (simp add: demo_get_def KeyExpired_def)
  have acc2: "accepted demo_lib demo_get ''Bearer old''
      \<lparr>Method_HMAC = True, Header_kid = Some ''k2''\<rparr> ''k2''"
    by (simp add: accepted_def demo_lib_def demo_get_def)
  have e2: "Expires (fst (demo_get ''k2'')) = 1600000000"
    by (simp add: demo_get_def)
  have dead: "KeyExpired demo_now (Expires (fst (demo_get ''k2'')))"
    unfolding e2
    by (simp add: KeyExpired_def After_def time_Now_def time_Unix_def wrap_int64_def
        unixToInternal_def demo_now_def)
  have u1: "Username (fst (demo_get ''k1'')) = ''colin''"
    by (simp add: demo_get_def)
  have bad: "ParseUnverified demo_lib (Sscanf_Bearer demo_lib ''Bearer bad'') = None"
    by (simp add: demo_lib_def)
  have etext: "Error_string demo_lib Malformed = ''token rejected''"
    by (simp add: demo_lib_def)
  show ?thesis
    using AuthFunc_responses [where lib = demo_lib and get = demo_get and now = demo_now
        and header = "''Bearer tok''" and kid = "''k1''"
        and token = "\<lparr>Method_HMAC = True, Header_kid = Some ''k1''\<rparr>"]
      AuthFunc_responses [where lib = demo_lib and get = demo_get and now = demo_now
        and header = "''Bearer old''" and kid = "''k2''"
        and token = "\<lparr>Method_HMAC = True, Header_kid = Some ''k2''\<rparr>"]
      AuthFunc_responses [where lib = demo_lib and get = demo_get and now = demo_now
        and header = "''Bearer bad''"]
      acc1 live acc2 dead e2 u1 bad etext
    by simp
qed

text \<open>
  The two errors the package declares are never the code of a response: they make the
  library return its error for a key function that failed, which is reported with the
  code \<^verbatim>\<open>ErrSignatureInvalid\<close>.
\<close>

lemma AuthFunc_missing_kid:
  "header \<noteq> [] \<Longrightarrow> ParseUnverified lib (Sscanf_Bearer lib header) = Some token \<Longrightarrow>
   Method_HMAC token \<Longrightarrow> Header_kid token = None \<Longrightarrow>
   AuthFunc lib get now header
     = Abort ErrSignatureInvalid (ErrorText (Error_string lib (Unverifiable ErrMissingKID)))"
  by (simp add: AuthFunc_flow)

lemma AuthFunc_missing_secret:
  "header \<noteq> [] \<Longrightarrow> ParseUnverified lib (Sscanf_Bearer lib header) = Some token \<Longrightarrow>
   Method_HMAC token \<Longrightarrow> Header_kid token = Some kid \<Longrightarrow> snd (get kid) \<Longrightarrow>
   AuthFunc lib get now header
     = Abort ErrSignatureInvalid (ErrorText (Error_string lib (Unverifiable ErrMissingSecret)))"
  by (simp add: AuthFunc_flow)

text \<open>
  A secret whose expiry is the largest \<^verbatim>\<open>int64\<close> counts as expired: its bearer is
  answered with \<^verbatim>\<open>ErrExpired\<close>.
\<close>

lemma AuthFunc_MaxInt64:
  "accepted lib get header token kid \<Longrightarrow> Expires (fst (get kid)) = 9223372036854775807 \<Longrightarrow>
   AuthFunc lib get demo_now header = Abort ErrExpired (ExpiredAt 9223372036854775807)"
  using KeyExpired_MaxInt64 by (simp add: AuthFunc_accepted)

section \<open>Authorization\<close>

text \<open>
  The scan of the candidate policies returns no error exactly when a matching policy
  allows (or one was seen before) and no matching policy denies.
\<close>

lemma DoPoliciesAllow_None:
  "DoPoliciesAllow m r ps allowed = None \<longleftrightarrow>
     (allowed \<or> (\<exists>p \<in> set ps. policy_matches m p r \<and> Effect p = AllowAccess))
     \<and> \<not> (\<exists>p \<in> set ps. policy_matches m p r \<and> Effect p = DenyAccess)"
proof (induction ps arbitrary: allowed)
  case Nil
  then show ?case by simp
next
  case (Cons p ps)
  show ?case
  proof (cases "policy_matches m p r")
    case False
    then show ?thesis using Cons.IH [of allowed] by auto
  next
    case True
    show ?thesis
    proof (cases "Effect p")
      case AllowAccess
      then show ?thesis using True Cons.IH [of True] by auto
    next
      case DenyAccess
      then show ?thesis using True by auto
    qed
  qed
qed

text \<open>
  C1: for every request, the response of \<^verbatim>\<open>Authorize\<close> over the warden has
  \<^verbatim>\<open>Allowed\<close> true exactly when some candidate policy that matches the request allows
  and no candidate policy that matches it denies; in every other case (a matching
  policy denies, or no matching policy allows, in particular when none matches)
  \<^verbatim>\<open>Allowed\<close> is false, and then \<^verbatim>\<open>Denied\<close> is true.
\<close>

theorem Authorize_deny_overrides:
  "(Allowed (Authorize (IsAllowed m candidates) r) \<longleftrightarrow>
      (\<exists>p \<in> set (candidates r). policy_matches m p r \<and> Effect p = AllowAccess)
      \<and> \<not> (\<exists>p \<in> set (candidates r). policy_matches m p r \<and> Effect p = DenyAccess))
   \<and> (Denied (Authorize (IsAllowed m candidates) r) \<longleftrightarrow>
        \<not> Allowed (Authorize (IsAllowed m candidates) r))"
  using DoPoliciesAllow_None [of m r "candidates r" False]
  by (auto simp: Authorize_def IsAllowed_def split: option.splits)

theorem Authorize_deny_overrides_witness:
  "Allowed (Authorize (IsAllowed exact_matcher (\<lambda>r. [allow_read])) read_request)
   \<and> \<not> Allowed (Authorize (IsAllowed exact_matcher (\<lambda>r. [allow_read, deny_read])) read_request)
   \<and> \<not> Allowed (Authorize (IsAllowed exact_matcher (\<lambda>r. [])) read_request)
   \<and> Denied (Authorize (IsAllowed exact_matcher (\<lambda>r. [])) read_request)"
  using Authorize_deny_overrides [of exact_matcher "\<lambda>r. [allow_read]" read_request]
    Authorize_deny_overrides [of exact_matcher "\<lambda>r. [allow_read, deny_read]" read_request]
    Authorize_deny_overrides [of exact_matcher "\<lambda>r. []" read_request]
  by (simp add: policy_matches_def exact_matcher_def allow_read_def deny_read_def
      read_request_def)

text \<open>The reason of a denial is that of the first matching policy that denies.\<close>

lemma DoPoliciesAllow_first_deny:
  "policy_matches m p r \<Longrightarrow> Effect p = DenyAccess \<Longrightarrow>
   \<forall>q \<in> set ps. \<not> (policy_matches m q r \<and> Effect q = DenyAccess) \<Longrightarrow>
   DoPoliciesAllow m r (ps @ p # ps') allowed = Some (ReasonText m (Some p))"
proof (induction ps arbitrary: allowed)
  case Nil
  then show ?case by simp
next
  case (Cons q ps)
  then show ?case by (cases "Effect q") auto
qed

section \<open>Recording a hit\<close>

lemma demo_analytics_new: "NewAnalytics demo_options [] = Inr demo_analytics"
  by (simp add: NewAnalytics_def demo_options_def demo_analytics_def)

lemma RecordHit_stopped: "shouldStop r \<noteq> 0 \<Longrightarrow> RecordHit w rc r = Returned None r"
  by (simp add: RecordHit_def unat_gt_0)

text \<open>
  C4, as stated, fails: on the instance that \<^verbatim>\<open>NewAnalytics\<close> makes for a queue of one
  record, once started, while no worker is waiting to receive and the goroutine for
  \<^verbatim>\<open>Stop\<close> has not run, a first \<^verbatim>\<open>RecordHit\<close> fills the queue and a second one
  blocks its caller.
\<close>

theorem RecordHit_blocks_counterexample:
  "NewAnalytics demo_options [] = Inr demo_analytics
   \<and> RecordHit False demo_record (Start demo_analytics) = Returned None full_analytics
   \<and> RecordHit False demo_record full_analytics = Blocked full_analytics"
  by (simp add: demo_analytics_new)
     (simp add: full_analytics_def demo_analytics_def Start_def RecordHit_def chan_send_def)

text \<open>
  C4, amended: when \<^verbatim>\<open>RecordHit\<close> returns, it returns \<^verbatim>\<open>nil\<close>.  Once the flag is set
  it returns at once and changes nothing.  With the flag clear and the channel open, it
  puts the record at the end of the queue and returns if the queue has room or a
  receiver is waiting, and blocks its caller, changing nothing, if not.
\<close>

theorem RecordHit_outcomes:
  "(RecordHit w rc r = Returned err r' \<longrightarrow> err = None)
   \<and> (shouldStop r \<noteq> 0 \<longrightarrow> RecordHit w rc r = Returned None r)
   \<and> (shouldStop r = 0 \<and> \<not> closed (recordsChan r)
        \<and> (length (buf (recordsChan r)) < cap (recordsChan r) \<or> w) \<longrightarrow>
        RecordHit w rc r
          = Returned None (r\<lparr>recordsChan := (recordsChan r)\<lparr>buf := buf (recordsChan r) @ [rc]\<rparr>\<rparr>))
   \<and> (shouldStop r = 0 \<and> \<not> closed (recordsChan r)
        \<and> cap (recordsChan r) \<le> length (buf (recordsChan r)) \<and> \<not> w \<longrightarrow>
        RecordHit w rc r = Blocked r)"
  by (auto simp: RecordHit_def chan_send_def unat_gt_0 split: send_result.splits if_splits)

theorem RecordHit_outcomes_witness:
  "shouldStop (demo_analytics\<lparr>shouldStop := 1\<rparr>) \<noteq> 0
   \<and> RecordHit False demo_record (demo_analytics\<lparr>shouldStop := 1\<rparr>)
       = Returned None (demo_analytics\<lparr>shouldStop := 1\<rparr>)
   \<and> shouldStop full_analytics = 0 \<and> \<not> closed (recordsChan full_analytics)
   \<and> cap (recordsChan full_analytics) \<le> length (buf (recordsChan full_analytics))
   \<and> RecordHit False demo_record full_analytics = Blocked full_analytics
   \<and> RecordHit True demo_record full_analytics
       = Returned None (full_analytics
           \<lparr>recordsChan := \<lparr>cap = 1, buf = [demo_record, demo_record], closed = False\<rparr>\<rparr>)"
  using RecordHit_outcomes [of False demo_record "demo_analytics\<lparr>shouldStop := 1\<rparr>"]
    RecordHit_outcomes [of False demo_record full_analytics]
    RecordHit_outcomes [of True demo_record full_analytics]
  by (simp add: full_analytics_def demo_analytics_def Start_def)

text \<open>
  With the flag clear and the channel closed (after \<^verbatim>\<open>Stop\<close> and a second \<^verbatim>\<open>Start\<close>,
  say) the send panics.
\<close>

lemma RecordHit_closed_panics:
  "shouldStop r = 0 \<Longrightarrow> closed (recordsChan r) \<Longrightarrow>
   RecordHit w rc r = Panicked SendOnClosedChannel"
  by (simp add: RecordHit_def chan_send_def)

section \<open>Start and the goroutine for Stop\<close>

lemma pipeline_step_draining: "draining r \<Longrightarrow> draining (pipeline_step e r)"
proof (cases e)
  case StopRuns
  assume "draining r"
  then show ?thesis using StopRuns
    by (auto simp: pipeline_step_def draining_def Stop_signal_def Let_def)
next
  case WorkerTakes
  assume "draining r"
  then show ?thesis using WorkerTakes by (simp add: pipeline_step_def draining_def)
next
  case (WorkerAppends b)
  assume "draining r"
  then show ?thesis using WorkerAppends by (simp add: pipeline_step_def draining_def)
next
  case WorkerExits
  assume "draining r"
  then show ?thesis using WorkerExits by (simp add: pipeline_step_def draining_def)
next
  case (Hit w rc)
  assume d: "draining r"
  then have "RecordHit w rc r = Returned None r"
    by (intro RecordHit_stopped) (simp add: draining_def)
  then show ?thesis using Hit d by (simp add: pipeline_step_def)
qed

lemma pipeline_step_pending:
  "stop_pending r \<Longrightarrow>
     (if e = StopRuns then draining (pipeline_step e r) else stop_pending (pipeline_step e r))"
proof (cases e)
  case StopRuns
  assume "stop_pending r"
  then show ?thesis using StopRuns
    by (auto simp: pipeline_step_def stop_pending_def draining_def Stop_signal_def Let_def)
next
  case WorkerTakes
  assume "stop_pending r"
  then show ?thesis using WorkerTakes by (simp add: pipeline_step_def stop_pending_def)
next
  case (WorkerAppends b)
  assume "stop_pending r"
  then show ?thesis using WorkerAppends by (simp add: pipeline_step_def stop_pending_def)
next
  case WorkerExits
  assume "stop_pending r"
  then show ?thesis using WorkerExits by (simp add: pipeline_step_def stop_pending_def)
next
  case (Hit w rc)
  assume "stop_pending r"
  then show ?thesis using Hit
    by (auto simp: pipeline_step_def stop_pending_def RecordHit_def chan_send_def
        split: call.splits send_result.splits if_splits)
qed

lemma pipeline_run_draining: "draining r \<Longrightarrow> draining (pipeline_run es r)"
  unfolding pipeline_run_def
  by (induction es arbitrary: r) (simp_all add: pipeline_step_draining)

lemma pipeline_run_pending:
  "stop_pending r \<Longrightarrow> StopRuns \<in> set es \<Longrightarrow> draining (pipeline_run es r)"
  unfolding pipeline_run_def
proof (induction es arbitrary: r)
  case Nil
  then show ?case by simp
next
  case (Cons e es)
  show ?case
  proof (cases "e = StopRuns")
    case True
    then have "draining (pipeline_step e r)"
      using pipeline_step_pending [OF Cons.prems(1), of e] by simp
    then show ?thesis
      using pipeline_run_draining [of "pipeline_step e r" es] by (simp add: pipeline_run_def)
  next
    case False
    then have "stop_pending (pipeline_step e r)"
      using pipeline_step_pending [OF Cons.prems(1), of e] by simp
    moreover have "StopRuns \<in> set es" using Cons.prems(2) False by auto
    ultimately show ?thesis using Cons.IH by simp
  qed
qed

text \<open>
  C3, as stated, fails: when \<^verbatim>\<open>Start\<close> returns, the goroutine it made for \<^verbatim>\<open>Stop\<close> has
  not run; the flag is 0, the channel is open, and a \<^verbatim>\<open>RecordHit\<close> at that moment puts
  its record on the queue.
\<close>

theorem Start_not_yet_draining_counterexample:
  "shouldStop (Start demo_analytics) = 0
   \<and> \<not> closed (recordsChan (Start demo_analytics))
   \<and> RecordHit False demo_record (Start demo_analytics)
       = Returned None ((Start demo_analytics)
           \<lparr>recordsChan := \<lparr>cap = 1, buf = [demo_record], closed = False\<rparr>\<rparr>)"
  by (simp add: Start_def demo_analytics_def RecordHit_def chan_send_def)

text \<open>
  C3, amended: \<^verbatim>\<open>Start\<close> itself makes a goroutine that calls \<^verbatim>\<open>Stop\<close>, and returns with
  the flag at 0; a \<^verbatim>\<open>RecordHit\<close> at that moment, on an open channel with room, puts
  its record on the queue.  On an instance whose channel is open, in every run \<open>es\<close>
  of the pipeline after \<^verbatim>\<open>Start\<close> in which that goroutine has run (no call of
  \<^verbatim>\<open>Stop\<close> from outside is among the steps), the flag is 1 and the channel is closed,
  and a \<^verbatim>\<open>RecordHit\<close> then returns \<^verbatim>\<open>nil\<close> and changes nothing.
\<close>

theorem Start_spawns_Stop:
  "GoStop \<in> set (spawned (Start r))
   \<and> shouldStop (Start r) = 0
   \<and> (\<not> closed (recordsChan r) \<and> length (buf (recordsChan r)) < cap (recordsChan r) \<longrightarrow>
        RecordHit w rc (Start r)
          = Returned None ((Start r)
              \<lparr>recordsChan := (recordsChan r)\<lparr>buf := buf (recordsChan r) @ [rc]\<rparr>\<rparr>))
   \<and> (\<not> closed (recordsChan r) \<and> StopRuns \<in> set es \<longrightarrow>
        shouldStop (pipeline_run es (Start r)) = 1
        \<and> closed (recordsChan (pipeline_run es (Start r)))
        \<and> RecordHit w rc (pipeline_run es (Start r))
            = Returned None (pipeline_run es (Start r)))"
proof -
  have "\<not> closed (recordsChan r) \<Longrightarrow> stop_pending (Start r)"
    by (simp add: stop_pending_def Start_def)
  then have "\<not> closed (recordsChan r) \<Longrightarrow> StopRuns \<in> set es \<Longrightarrow>
      draining (pipeline_run es (Start r))"
    by (rule pipeline_run_pending)
  moreover have "draining q \<Longrightarrow> RecordHit w rc q = Returned None q" for q
    by (intro RecordHit_stopped) (simp add: draining_def)
  moreover have "\<not> closed (recordsChan r) \<and> length (buf (recordsChan r)) < cap (recordsChan r) \<longrightarrow>
        RecordHit w rc (Start r)
          = Returned None ((Start r)
              \<lparr>recordsChan := (recordsChan r)\<lparr>buf := buf (recordsChan r) @ [rc]\<rparr>\<rparr>)"
    by (simp add: RecordHit_def chan_send_def Start_def)
  moreover have "GoStop \<in> set (spawned (Start r))" and "shouldStop (Start r) = 0"
    by (simp_all add: Start_def)
  ultimately show ?thesis
    by (simp add: draining_def)
qed

theorem Start_spawns_Stop_witness:
  "\<not> closed (recordsChan demo_analytics)
   \<and> StopRuns \<in> set [Hit False demo_record, StopRuns, WorkerTakes]
   \<and> shouldStop (pipeline_run [Hit False demo_record, StopRuns, WorkerTakes]
        (Start demo_analytics)) = 1
   \<and> closed (recordsChan (pipeline_run [Hit False demo_record, StopRuns, WorkerTakes]
        (Start demo_analytics)))
   \<and> RecordHit True demo_record
        (pipeline_run [Hit False demo_record, StopRuns, WorkerTakes] (Start demo_analytics))
       = Returned None
           (pipeline_run [Hit False demo_record, StopRuns, WorkerTakes] (Start demo_analytics))"
proof -
  have a: "\<not> closed (recordsChan demo_analytics)" by (simp add: demo_analytics_def)
  have b: "StopRuns \<in> set [Hit False demo_record, StopRuns, WorkerTakes]" by simp
  show ?thesis
    using Start_spawns_Stop [where r = demo_analytics
        and es = "[Hit False demo_record, StopRuns, WorkerTakes]"
        and w = True and rc = demo_record] a b
    by blast
qed

text \<open>
  \<^verbatim>\<open>Stop\<close> itself: on an open channel it sets the flag, closes the channel and waits
  for the workers; on a closed channel it panics.
\<close>

lemma Stop_open:
  "\<not> closed (recordsChan r) \<Longrightarrow>
   Stop r =
     (if poolWg r = 0
      then Returned () (r\<lparr>shouldStop := 1, recordsChan := (recordsChan r)\<lparr>closed := True\<rparr>\<rparr>)
      else Blocked (r\<lparr>shouldStop := 1, recordsChan := (recordsChan r)\<lparr>closed := True\<rparr>\<rparr>))"
  by (simp add: Stop_def Stop_signal_def Let_def)

lemma Stop_closed: "closed (recordsChan r) \<Longrightarrow> Stop r = Panicked CloseOfClosedChannel"
  by (simp add: Stop_def Stop_signal_def Let_def)

section \<open>The worker and its buffer\<close>

lemma uint64_of_PoolSize:
  assumes "0 < ps" and "ps < 2 ^ 63"
  shows "unat (word_of_int ps :: 64 word) = nat ps"
proof -
  have "ps < 2 ^ 64" using assms(2) by simp
  then have "take_bit 64 ps = ps" using assms(1) by (simp add: take_bit_int_eq_self)
  then have "uint (word_of_int ps :: 64 word) = ps" by (simp add: uint_word_of_int_eq)
  then show ?thesis by (simp add: unat_eq_nat_uint)
qed

lemma NewAnalytics_workerBufferSize:
  assumes "0 < PoolSize opts" and "PoolSize opts < 2 ^ 63"
  shows "\<exists>a. NewAnalytics opts st = Inr a
           \<and> unat (workerBufferSize a) = unat (RecordsBufferSize opts) div nat (PoolSize opts)
           \<and> poolSize a = PoolSize opts \<and> spawned a = []"
proof -
  have u: "unat (word_of_int (PoolSize opts) :: 64 word) = nat (PoolSize opts)"
    by (rule uint64_of_PoolSize [OF assms])
  then have nz: "(word_of_int (PoolSize opts) :: 64 word) \<noteq> 0"
    using assms(1) by (metis nat_0_iff not_less unat_0 order_refl)
  show ?thesis
    using nz u by (simp add: NewAnalytics_def Let_def unat_div)
qed

text \<open>A pool size of 0 makes \<^verbatim>\<open>NewAnalytics\<close> panic.\<close>

lemma NewAnalytics_no_workers: "PoolSize opts = 0 \<Longrightarrow> NewAnalytics opts st = Inl DivideByZero"
  by (simp add: NewAnalytics_def)

lemma Start_workers: "spawned r = [] \<Longrightarrow> workers_of (Start r) = nat (poolSize r)"
  by (simp add: workers_of_def Start_def)

lemma recordWorker_step_full:
  assumes "marshal rc = Some e"
    and "length (recordsBuffer w) + 1 = unat (workerBufferSize r)"
  shows "recordWorker_step r marshal (Received rc, now) (w, st)
           = (Some \<lparr>recordsBuffer = [], lastSentTS = now\<rparr>,
              st @ [(analyticsKeyName, recordsBuffer w @ [e])])"
  using assms by (simp add: recordWorker_step_def Let_def)

lemma recordWorker_step_below:
  assumes "marshal rc = Some e"
    and "length (recordsBuffer w) + 1 < unat (workerBufferSize r)"
    and "now - lastSentTS w < recordsBufferForcedFlushInterval"
  shows "recordWorker_step r marshal (Received rc, now) (w, st)
           = (Some (w\<lparr>recordsBuffer := recordsBuffer w @ [e]\<rparr>), st)"
  using assms by (simp add: recordWorker_step_def Let_def)

lemma recordWorker_below:
  assumes "\<forall>(rc, t) \<in> set evs. marshal rc \<noteq> None
             \<and> t - lastSentTS w < recordsBufferForcedFlushInterval"
    and "length (recordsBuffer w) + length evs < unat (workerBufferSize r)"
  shows "recordWorker r marshal (arrivals evs) (w, st)
           = (Some (w\<lparr>recordsBuffer := recordsBuffer w @ encoded marshal (map fst evs)\<rparr>), st)"
  using assms
proof (induction evs arbitrary: w)
  case Nil
  then show ?case by (simp add: arrivals_def encoded_def)
next
  case (Cons ev evs)
  obtain rc t where ev: "ev = (rc, t)" by (cases ev)
  from Cons.prems(1) ev obtain e where e: "marshal rc = Some e"
    and t: "t - lastSentTS w < recordsBufferForcedFlushInterval" by auto
  let ?w = "w\<lparr>recordsBuffer := recordsBuffer w @ [e]\<rparr>"
  have step: "recordWorker_step r marshal (Received rc, t) (w, st) = (Some ?w, st)"
    using e t Cons.prems(2) by (intro recordWorker_step_below) auto
  have "\<forall>(rc, t) \<in> set evs. marshal rc \<noteq> None
          \<and> t - lastSentTS ?w < recordsBufferForcedFlushInterval"
    using Cons.prems(1) by auto
  moreover have "length (recordsBuffer ?w) + length evs < unat (workerBufferSize r)"
    using Cons.prems(2) by simp
  ultimately have "recordWorker r marshal (arrivals evs) (?w, st)
      = (Some (?w\<lparr>recordsBuffer := recordsBuffer ?w @ encoded marshal (map fst evs)\<rparr>), st)"
    by (rule Cons.IH)
  then show ?case using step ev e by (simp add: arrivals_def encoded_def)
qed

lemma recordWorker_append:
  "recordWorker r marshal (evs @ evs') (w, st) =
     (case recordWorker r marshal evs (w, st) of
        (None, st') \<Rightarrow> (None, st')
      | (Some w', st') \<Rightarrow> recordWorker r marshal evs' (w', st'))"
  by (induction evs arbitrary: w st) (auto split: prod.splits option.splits)

text \<open>
  Whatever a worker does in a step, nothing is lost: the batches in the store followed
  by the buffer grow by exactly the encoding of the record received, if any.
\<close>

lemma recordWorker_step_keeps:
  "recordWorker_step r marshal (sel, now) (w, st) = (w', st') \<Longrightarrow>
     concat (map snd st') @ (case w' of None \<Rightarrow> [] | Some v \<Rightarrow> recordsBuffer v)
       = concat (map snd st) @ recordsBuffer w
           @ (case sel of Received rc \<Rightarrow> encoded marshal [rc] | _ \<Rightarrow> [])"
  by (cases sel)
     (auto simp: recordWorker_step_def Let_def encoded_def split: option.splits if_splits)

text \<open>
  With a buffer size of at least 1 the buffer stays below it between iterations.  With
  a buffer size of 0 (fewer slots than workers) the size never triggers a flush: a
  record is kept until one of the two timers fires.
\<close>

lemma recordWorker_step_bounded:
  "length (recordsBuffer w) < unat (workerBufferSize r) \<Longrightarrow>
   recordWorker_step r marshal (sel, now) (w, st) = (Some w', st') \<Longrightarrow>
   length (recordsBuffer w') < unat (workerBufferSize r)"
  by (cases sel)
     (auto simp: recordWorker_step_def Let_def split: option.splits if_splits)

lemma recordWorker_step_size_zero:
  "workerBufferSize r = 0 \<Longrightarrow> marshal rc = Some e \<Longrightarrow>
   now - lastSentTS w < recordsBufferForcedFlushInterval \<Longrightarrow>
   recordWorker_step r marshal (Received rc, now) (w, st)
     = (Some (w\<lparr>recordsBuffer := recordsBuffer w @ [e]\<rparr>), st)"
  by (simp add: recordWorker_step_def Let_def)

text \<open>
  C9: let \<^verbatim>\<open>NewAnalytics\<close> have made the instance for a pool of \<open>N \<ge> 1\<close> workers.  Its
  worker buffer size is the total buffer size divided by \<open>N\<close> (the quotient of the
  integer division), and \<^verbatim>\<open>Start\<close> makes \<open>N\<close> workers, each with a buffer of its own.
  In any iteration of a worker in which the record received encodes and brings the
  buffer to that size, the worker hands the store one batch with the whole buffer, the
  new record last, and empties the buffer.  In particular, when exactly that many
  records, all of which encode, arrive at a worker with an empty buffer, each less
  than the forced flush interval after the worker's last send, the store gets them all
  in one batch, in order, at the last one.
\<close>

theorem recordWorker_flush_at_capacity:
  assumes "0 < PoolSize opts" and "PoolSize opts < 2 ^ 63"
    and "NewAnalytics opts st0 = Inr a"
  shows "unat (workerBufferSize a) = unat (RecordsBufferSize opts) div nat (PoolSize opts)
       \<and> workers_of (Start a) = nat (PoolSize opts)
       \<and> (marshal rc = Some e \<and> length (recordsBuffer w) + 1 = unat (workerBufferSize a) \<longrightarrow>
            recordWorker_step a marshal (Received rc, now) (w, st)
              = (Some \<lparr>recordsBuffer = [], lastSentTS = now\<rparr>,
                 st @ [(analyticsKeyName, recordsBuffer w @ [e])]))
       \<and> ((\<forall>(rc, t) \<in> set (evs @ [(rc', t')]). marshal rc \<noteq> None
              \<and> t - t0 < recordsBufferForcedFlushInterval)
           \<and> length (evs @ [(rc', t')]) = unat (workerBufferSize a) \<longrightarrow>
            recordWorker a marshal (arrivals (evs @ [(rc', t')]))
                (\<lparr>recordsBuffer = [], lastSentTS = t0\<rparr>, st)
              = (Some \<lparr>recordsBuffer = [], lastSentTS = t'\<rparr>,
                 st @ [(analyticsKeyName, encoded marshal (map fst (evs @ [(rc', t')])))]))"
proof -
  obtain a' where a': "NewAnalytics opts st0 = Inr a'"
    and sz': "unat (workerBufferSize a') = unat (RecordsBufferSize opts) div nat (PoolSize opts)"
    and ps': "poolSize a' = PoolSize opts" and sp': "spawned a' = []"
    using NewAnalytics_workerBufferSize [OF assms(1,2)] by blast
  have aa: "a' = a" using a' assms(3) by simp
  have sz: "unat (workerBufferSize a) = unat (RecordsBufferSize opts) div nat (PoolSize opts)"
    using sz' aa by simp
  have wk: "workers_of (Start a) = nat (PoolSize opts)"
    using Start_workers [of a] sp' ps' aa by simp
  have one: "marshal rc = Some e \<and> length (recordsBuffer w) + 1 = unat (workerBufferSize a) \<longrightarrow>
      recordWorker_step a marshal (Received rc, now) (w, st)
        = (Some \<lparr>recordsBuffer = [], lastSentTS = now\<rparr>,
           st @ [(analyticsKeyName, recordsBuffer w @ [e])])"
    using recordWorker_step_full [of marshal rc e w a now st] by blast
  have run: "recordWorker a marshal (arrivals (evs @ [(rc', t')]))
                (\<lparr>recordsBuffer = [], lastSentTS = t0\<rparr>, st)
              = (Some \<lparr>recordsBuffer = [], lastSentTS = t'\<rparr>,
                 st @ [(analyticsKeyName, encoded marshal (map fst (evs @ [(rc', t')])))])"
    if ok: "\<forall>(rc, t) \<in> set (evs @ [(rc', t')]). marshal rc \<noteq> None
              \<and> t - t0 < recordsBufferForcedFlushInterval"
      and n: "length (evs @ [(rc', t')]) = unat (workerBufferSize a)"
  proof -
    let ?w0 = "\<lparr>recordsBuffer = [], lastSentTS = t0\<rparr>"
    let ?w1 = "?w0\<lparr>recordsBuffer := recordsBuffer ?w0 @ encoded marshal (map fst evs)\<rparr>"
    have below: "recordWorker a marshal (arrivals evs) (?w0, st) = (Some ?w1, st)"
      using ok n by (intro recordWorker_below) auto
    obtain e' where e': "marshal rc' = Some e'" using ok by auto
    have all: "\<forall>rc \<in> set (map fst evs). marshal rc \<noteq> None" using ok by auto
    have len: "length (encoded marshal recs) = length recs"
      if "\<forall>rc \<in> set recs. marshal rc \<noteq> None" for recs
      using that by (induction recs) (auto simp: encoded_def)
    have "length (recordsBuffer ?w1) + 1 = unat (workerBufferSize a)"
      using n len [OF all] by simp
    then have last: "recordWorker_step a marshal (Received rc', t') (?w1, st)
        = (Some \<lparr>recordsBuffer = [], lastSentTS = t'\<rparr>,
           st @ [(analyticsKeyName, recordsBuffer ?w1 @ [e'])])"
      using e' by (intro recordWorker_step_full) auto
    have "arrivals (evs @ [(rc', t')]) = arrivals evs @ [(Received rc', t')]"
      by (simp add: arrivals_def)
    then have "recordWorker a marshal (arrivals (evs @ [(rc', t')])) (?w0, st)
        = (Some \<lparr>recordsBuffer = [], lastSentTS = t'\<rparr>,
           st @ [(analyticsKeyName, recordsBuffer ?w1 @ [e'])])"
      using below last by (simp add: recordWorker_append)
    moreover have "recordsBuffer ?w1 @ [e'] = encoded marshal (map fst (evs @ [(rc', t')]))"
      using e' by (simp add: encoded_def)
    ultimately show ?thesis by simp
  qed
  from sz wk one run show ?thesis by blast
qed

theorem recordWorker_flush_at_capacity_witness:
  "0 < PoolSize pair_options \<and> PoolSize pair_options < 2 ^ 63
   \<and> NewAnalytics pair_options [] = Inr pair_analytics
   \<and> unat (workerBufferSize pair_analytics) = 2
   \<and> workers_of (Start pair_analytics) = 2
   \<and> recordWorker_step pair_analytics demo_marshal (Received demo_record, 5)
        (\<lparr>recordsBuffer = [[9]], lastSentTS = 0\<rparr>, [])
       = (Some \<lparr>recordsBuffer = [], lastSentTS = 5\<rparr>, [(analyticsKeyName, [[9], [1, 2]])])
   \<and> recordWorker pair_analytics demo_marshal
        (arrivals [(demo_record, 10), (demo_record, 20)])
        (\<lparr>recordsBuffer = [], lastSentTS = 0\<rparr>, [])
       = (Some \<lparr>recordsBuffer = [], lastSentTS = 20\<rparr>,
          [(analyticsKeyName, [[1, 2], [1, 2]])])"
proof -
  have a: "0 < PoolSize pair_options" and b: "PoolSize pair_options < 2 ^ 63"
    by (simp_all add: pair_options_def)
  have c: "NewAnalytics pair_options [] = Inr pair_analytics"
    by (simp add: NewAnalytics_def pair_options_def pair_analytics_def)
  have sz: "unat (workerBufferSize pair_analytics) = 2"
    by (simp add: pair_analytics_def)
  have m: "demo_marshal demo_record = Some [1, 2]"
    by (simp add: demo_marshal_def)
  have t: "\<forall>(rc, t) \<in> set ([(demo_record, 10)] @ [(demo_record, 20)]).
      demo_marshal rc \<noteq> None \<and> t - 0 < recordsBufferForcedFlushInterval"
    by (simp add: m recordsBufferForcedFlushInterval_def)
  have enc: "encoded demo_marshal (map fst ([(demo_record, 10)] @ [(demo_record, 20)]))
      = [[1, 2], [1, 2]]"
    by (simp add: encoded_def m)
  show ?thesis
    using recordWorker_flush_at_capacity [OF a b c,
        of demo_marshal demo_record "[1, 2]" "\<lparr>recordsBuffer = [[9]], lastSentTS = 0\<rparr>"
           5 "[]" "[(demo_record, 10)]" demo_record 20 0]
      a b c sz m t enc
    by (simp add: pair_options_def)
qed

end
